theory Spec2Isabelle
  imports Main "HOL-Library.Word"
begin

section \<open>Go values used by the lock\<close>

text \<open>
  \<open>int64\<close> and \<open>time.Duration\<close> (nanoseconds) are 64-bit two's complement: arithmetic
  wraps, comparisons are signed (\<open>sint\<close>).
\<close>

type_synonym int64 = "64 word"
type_synonym Duration = "64 word"

definition Millisecond :: Duration where
  "Millisecond = 1000000"

definition Second :: Duration where
  "Second = 1000000000"

subsection \<open>Errors\<close>

text \<open>
  Errors made outside this package: \<open>redis.ErrNil\<close> of redigo, the two errors of package
  \<open>context\<close>, and any other failure of the pool, the network or the server. None of them
  is, or wraps, a sentinel of this package.
\<close>

datatype ext_error = ErrNil | Canceled | DeadlineExceeded | Failure string

text \<open>
  Errors as this package sees them: its sentinel \<open>ErrLockAcquiredByOthers\<close>, an external
  error, a value of \<open>errors.New\<close>, and \<open>fmt.Errorf\<close> with \<open>%w\<close>, which wraps one error.
  Messages written in Chinese in the source are given in English.
\<close>

datatype error = ErrLockAcquiredByOthers | Ext ext_error | New string | Errorf string error

fun errors_Is :: "error \<Rightarrow> error \<Rightarrow> bool" where
  "errors_Is (Errorf m e) target = (Errorf m e = target \<or> errors_Is e target)"
| "errors_Is e target = (e = target)"

text \<open>\<open>errors.Is\<close> on a possibly nil error: nil matches no sentinel.\<close>

fun Is :: "error option \<Rightarrow> error \<Rightarrow> bool" where
  "Is None target = False"
| "Is (Some e) target = errors_Is e target"

definition IsRetryableErr :: "error option \<Rightarrow> bool" where
  "IsRetryableErr err = Is err ErrLockAcquiredByOthers"

subsection \<open>Outcomes of a call\<close>

text \<open>
  A call returns, panics, or never comes back (the busy wait of \<open>watchDog\<close>). The state
  reached is kept beside the outcome in each case.
\<close>

datatype 'a result = Returns 'a | Panics string | Spins

fun bind :: "'a result \<times> 's \<Rightarrow> ('a \<Rightarrow> 's \<Rightarrow> 'b result \<times> 's) \<Rightarrow> 'b result \<times> 's" where
  "bind (Returns x, s) f = f x s"
| "bind (Panics m, s) f = (Panics m, s)"
| "bind (Spins, s) f = (Spins, s)"

subsection \<open>Contexts\<close>

text \<open>
  A context is the background context or a child made by \<open>context.WithCancel\<close> or
  \<open>context.WithTimeout\<close>. The number names the cancel function returned with the child;
  calling that function puts the number into the set of cancelled handles. A child is done
  when its own cancel function was called, its deadline has passed, or its parent is done.
\<close>

datatype Context = Background | WithCancel nat Context | WithTimeout nat int Context

fun ctx_Done :: "nat set \<Rightarrow> int \<Rightarrow> Context \<Rightarrow> bool" where
  "ctx_Done cs now Background = False"
| "ctx_Done cs now (WithCancel h parent) = (h \<in> cs \<or> ctx_Done cs now parent)"
| "ctx_Done cs now (WithTimeout h deadline parent) =
     (h \<in> cs \<or> deadline \<le> now \<or> ctx_Done cs now parent)"

text \<open>
  \<open>ctx.Err()\<close> of a done context. The order in which several causes happened is not
  recorded: the parent's error is reported first, then the deadline, then the own cancel.
\<close>

fun ctx_Err :: "nat set \<Rightarrow> int \<Rightarrow> Context \<Rightarrow> ext_error option" where
  "ctx_Err cs now Background = None"
| "ctx_Err cs now (WithCancel h parent) =
     (case ctx_Err cs now parent of Some e \<Rightarrow> Some e
      | None \<Rightarrow> if h \<in> cs then Some Canceled else None)"
| "ctx_Err cs now (WithTimeout h deadline parent) =
     (case ctx_Err cs now parent of Some e \<Rightarrow> Some e
      | None \<Rightarrow> if deadline \<le> now then Some DeadlineExceeded
                else if h \<in> cs then Some Canceled else None)"

section \<open>The store\<close>

text \<open>
  One Redis server: each key has a value and the instant (in nanoseconds) at which it
  expires. A key whose instant has passed is absent for every command.
\<close>

type_synonym db = "string \<rightharpoonup> string \<times> int"

datatype reply = Nil | Str string | Int64 int64 | GoInt int | Err string

definition redis_get :: "int \<Rightarrow> db \<Rightarrow> string \<Rightarrow> string option" where
  "redis_get now d k =
     (case d k of None \<Rightarrow> None | Some (v, e) \<Rightarrow> if now < e then Some v else None)"

text \<open>\<open>SET key value EX seconds NX\<close>: sets the key only if it is absent; the nil reply otherwise.\<close>

definition redis_set_ex_nx :: "int \<Rightarrow> db \<Rightarrow> string \<Rightarrow> string \<Rightarrow> int64 \<Rightarrow> reply \<times> db" where
  "redis_set_ex_nx now d k v ex =
     (if sint ex \<le> 0 then (Err ''ERR invalid expire time in 'set' command'', d)
      else if redis_get now d k = None
        then (Str ''OK'', d(k \<mapsto> (v, now + sint ex * 1000000000)))
        else (Nil, d))"

definition redis_del :: "int \<Rightarrow> db \<Rightarrow> string \<Rightarrow> reply \<times> db" where
  "redis_del now d k =
     (if redis_get now d k = None then (Int64 0, d(k := None)) else (Int64 1, d(k := None)))"

definition redis_expire :: "int \<Rightarrow> db \<Rightarrow> string \<Rightarrow> int64 \<Rightarrow> reply \<times> db" where
  "redis_expire now d k secs =
     (case redis_get now d k of
        None \<Rightarrow> (Int64 0, d(k := None))
      | Some v \<Rightarrow>
          if sint secs \<le> 0 then (Int64 1, d(k := None))
          else (Int64 1, d(k \<mapsto> (v, now + sint secs * 1000000000))))"

subsection \<open>The two Lua scripts\<close>

datatype script = LuaCheckAndDeleteDistributionLock | LuaCheckAndExpireDistributionLock

datatype arg = S string | I int64

text \<open>
  The scripts read \<open>KEYS[1]\<close>, \<open>ARGV[1]\<close> and \<open>ARGV[2]\<close>. \<open>redis.call('get', k)\<close> is false
  for an absent key, so \<open>not getToken or getToken ~= targetToken\<close> holds for an absent key
  and for a value other than the token. Argument lists of another shape than the ones the
  package sends are answered by an error reply.
\<close>

fun run_script :: "script \<Rightarrow> int \<Rightarrow> db \<Rightarrow> arg list \<Rightarrow> arg list \<Rightarrow> reply \<times> db" where
  "run_script LuaCheckAndDeleteDistributionLock now d [S lockerKey] (S targetToken # rest) =
     (let getToken = redis_get now d lockerKey in
      if getToken = None \<or> getToken \<noteq> Some targetToken then (Int64 0, d)
      else redis_del now d lockerKey)"
| "run_script LuaCheckAndExpireDistributionLock now d [S lockerKey] (S targetToken # I duration # rest) =
     (let getToken = redis_get now d lockerKey in
      if getToken = None \<or> getToken \<noteq> Some targetToken then (Int64 0, d)
      else redis_expire now d lockerKey duration)"
| "run_script s now d keys argv = (Err ''ERR unsupported arguments'', d)"

datatype command = SET_EX_NX string string int64 | EVAL script nat "arg list"

fun exec_command :: "int \<Rightarrow> db \<Rightarrow> command \<Rightarrow> reply \<times> db" where
  "exec_command now d (SET_EX_NX k v ex) = redis_set_ex_nx now d k v ex"
| "exec_command now d (EVAL s keyCount keyAndArgs) =
     run_script s now d (take keyCount keyAndArgs) (drop keyCount keyAndArgs)"

section \<open>The world a lock runs in\<close>

text \<open>
  What the network does to one call is given from outside: the pool fails to give a
  connection, or \<open>Do\<close> fails (the server having run the command or not), or the call goes
  through; and the call takes some time.
\<close>

datatype fault = ConnFails ext_error | DoFails ext_error bool

record call_env =
  fault :: "fault option"
  latency :: nat

text \<open>
  The servers by address, the clock in nanoseconds, the fate of the calls to come, the
  cancel functions called so far, the next unused cancel handle, and the commands sent
  (address and command, latest first).
\<close>

record world =
  servers :: "string \<Rightarrow> db"
  clock :: int
  upcoming :: "call_env list"
  cancelled :: "nat set"
  fresh :: nat
  sent :: "(string \<times> command) list"

definition Done :: "world \<Rightarrow> Context \<Rightarrow> bool" where
  "Done w ctx = ctx_Done (cancelled w) (clock w) ctx"

definition ctxErr :: "world \<Rightarrow> Context \<Rightarrow> ext_error option" where
  "ctxErr w ctx = ctx_Err (cancelled w) (clock w) ctx"

definition take_call :: "world \<Rightarrow> call_env \<times> world" where
  "take_call w =
     (case upcoming w of
        [] \<Rightarrow> (\<lparr>fault = None, latency = 0\<rparr>, w)
      | c # cs \<Rightarrow> (c, w\<lparr>upcoming := cs\<rparr>))"

section \<open>option.go: client options\<close>

record ClientOptions =
  maxIdle :: int
  idleTimeoutSeconds :: int
  maxActive :: int
  wait :: bool
  network :: string
  address :: string
  password :: string

datatype ClientOption =
  WithMaxIdle int | WithIdleTimeoutSeconds int | WithMaxActive int | WithWaitMode

fun apply_ClientOption :: "ClientOption \<Rightarrow> ClientOptions \<Rightarrow> ClientOptions" where
  "apply_ClientOption (WithMaxIdle n) c = c\<lparr>maxIdle := n\<rparr>"
| "apply_ClientOption (WithIdleTimeoutSeconds n) c = c\<lparr>idleTimeoutSeconds := n\<rparr>"
| "apply_ClientOption (WithMaxActive n) c = c\<lparr>maxActive := n\<rparr>"
| "apply_ClientOption WithWaitMode c = c\<lparr>wait := True\<rparr>"

definition repairClient :: "ClientOptions \<Rightarrow> ClientOptions" where
  "repairClient c =
     (let c1 = (if maxIdle c < 0 then c\<lparr>maxIdle := 20\<rparr> else c);
          c2 = (if idleTimeoutSeconds c1 < 0 then c1\<lparr>idleTimeoutSeconds := 10\<rparr> else c1)
      in if maxActive c2 < 0 then c2\<lparr>maxActive := 100\<rparr> else c2)"

section \<open>redis.go: the client\<close>

text \<open>
  \<open>NewClient\<close> returns a client that holds only the pool; the pool keeps the options it
  was made from (its \<open>Dial\<close> closure reads the address). No connection is opened here.
\<close>

record Client =
  pool :: ClientOptions

definition NewClient :: "string \<Rightarrow> string \<Rightarrow> string \<Rightarrow> ClientOption list \<Rightarrow> Client" where
  "NewClient network' address' password' opts =
     \<lparr>pool = repairClient (fold apply_ClientOption opts
        \<lparr>maxIdle = 0, idleTimeoutSeconds = 0, maxActive = 0, wait = False,
         network = network', address = address', password = password'\<rparr>)\<rparr>"

text \<open>
  A connection from the pool. No connection to an empty address was ever made, so the pool
  dials, and \<open>getRedisConn\<close> panics. Otherwise the pool gives a connection or fails as the
  world says. The connection carries the fate of the command sent on it.
\<close>

record conn =
  peer :: string
  fate :: call_env

definition getConn :: "Client \<Rightarrow> Context \<Rightarrow> world \<Rightarrow> (ext_error + conn) result \<times> world" where
  "getConn c ctx w =
     (if address (pool c) = [] then (Panics ''redis address is empty'', w)
      else case take_call w of (e, w1) \<Rightarrow>
        (case fault e of
           Some (ConnFails err) \<Rightarrow> (Returns (Inl err), w1\<lparr>clock := clock w1 + int (latency e)\<rparr>)
         | _ \<Rightarrow> (Returns (Inr \<lparr>peer = address (pool c), fate = e\<rparr>), w1)))"

text \<open>
  \<open>conn.Do\<close>: the server runs the command at the current instant, unless the command was
  lost on the way; an error reply of the server, and a failure of the transport, come
  back as the error; the clock moves on by the time the call took.
\<close>

definition conn_Do :: "conn \<Rightarrow> command \<Rightarrow> world \<Rightarrow> (reply \<times> ext_error option) \<times> world" where
  "conn_Do cn cmd w =
     (let ran = (case fault (fate cn) of Some (DoFails err executed) \<Rightarrow> executed | _ \<Rightarrow> True);
          (rep, d) = exec_command (clock w) (servers w (peer cn)) cmd;
          w1 = w\<lparr>clock := clock w + int (latency (fate cn)),
                 sent := (peer cn, cmd) # sent w\<rparr>;
          w2 = (if ran then w1\<lparr>servers := (servers w)(peer cn := d)\<rparr> else w1)
      in case fault (fate cn) of
           Some (DoFails err executed) \<Rightarrow> ((Nil, Some err), w2)
         | _ \<Rightarrow> (case rep of Err m \<Rightarrow> ((Nil, Some (Failure m)), w2) | _ \<Rightarrow> ((rep, None), w2)))"

text \<open>\<open>redis.Int64\<close> of redigo on the replies the server gives here.\<close>

fun redis_Int64 :: "reply \<Rightarrow> ext_error option \<Rightarrow> int64 \<times> ext_error option" where
  "redis_Int64 rep (Some err) = (0, Some err)"
| "redis_Int64 (Int64 n) None = (n, None)"
| "redis_Int64 Nil None = (0, Some ErrNil)"
| "redis_Int64 (Err m) None = (0, Some (Failure m))"
| "redis_Int64 rep None = (0, Some (Failure ''redigo: unexpected type for Int64''))"

definition lower_char :: "char \<Rightarrow> char" where
  "lower_char c =
     (let n = (of_char c :: nat) in if 65 \<le> n \<and> n \<le> 90 then char_of (n + 32) else c)"

definition ToLower :: "string \<Rightarrow> string" where
  "ToLower s = map lower_char s"

definition ext :: "ext_error option \<Rightarrow> error option" where
  "ext e = map_option Ext e"

definition SetNX ::
  "Client \<Rightarrow> Context \<Rightarrow> string \<Rightarrow> string \<Rightarrow> int64 \<Rightarrow> world \<Rightarrow> (int64 \<times> error option) result \<times> world"
where
  "SetNX c ctx key' value expireSeconds' w =
     (if key' = [] \<or> value = [] then (Panics ''redis SET key or value can't be empty'', w)
      else bind (getConn c ctx w) (\<lambda>got w1.
        case got of
          Inl err \<Rightarrow> (Returns (- 1, Some (Ext err)), w1)
        | Inr cn \<Rightarrow>
            (case conn_Do cn (SET_EX_NX key' value expireSeconds') w1 of
               ((rep, err), w2) \<Rightarrow>
                 if err \<noteq> None then (Returns (- 1, ext err), w2)
                 else if (case rep of Str respStr \<Rightarrow> ToLower respStr = ''ok'' | _ \<Rightarrow> False)
                   then (Returns (1, None), w2)
                 else (case redis_Int64 rep err of (n, e) \<Rightarrow> (Returns (n, ext e), w2)))))"

definition Eval ::
  "Client \<Rightarrow> Context \<Rightarrow> script \<Rightarrow> nat \<Rightarrow> arg list \<Rightarrow> world \<Rightarrow> (reply \<times> error option) result \<times> world"
where
  "Eval c ctx src keyCount keyAndArgs w =
     bind (getConn c ctx w) (\<lambda>got w1.
       case got of
         Inl err \<Rightarrow> (Returns (GoInt (- 1), Some (Ext err)), w1)
       | Inr cn \<Rightarrow>
           (case conn_Do cn (EVAL src keyCount keyAndArgs) w1 of
              ((rep, err), w2) \<Rightarrow> (Returns (rep, ext err), w2)))"

section \<open>option.go: lock options\<close>

record LockOptions =
  isBlock :: bool
  blockWaitingSeconds :: int64
  expireSeconds :: int64
  watchDogMode :: bool

datatype LockOption = WithBlock | WithBlockWaitingSeconds int64 | WithExpireSeconds int64

definition DefaultLockExpireSeconds :: int64 where
  "DefaultLockExpireSeconds = 10"

definition WatchDogWorkStepSeconds :: int64 where
  "WatchDogWorkStepSeconds = 3"

section \<open>lock.go: the single-node lock\<close>

text \<open>
  The struct embeds \<open>LockOptions\<close>. \<open>runningDog\<close> is the \<open>int32\<close> flag, \<open>stopDog\<close> the
  cancel function of the watchdog's context (\<open>None\<close> is the nil function value).
  Calls of the logger are left out.
\<close>

record RedisLock = LockOptions +
  key :: string
  token :: string
  client :: Client
  runningDog :: "32 word"
  stopDog :: "nat option"

fun apply_LockOption :: "LockOption \<Rightarrow> 'a RedisLock_scheme \<Rightarrow> 'a RedisLock_scheme" where
  "apply_LockOption WithBlock lo = lo\<lparr>isBlock := True\<rparr>"
| "apply_LockOption (WithBlockWaitingSeconds n) lo = lo\<lparr>blockWaitingSeconds := n\<rparr>"
| "apply_LockOption (WithExpireSeconds n) lo = lo\<lparr>expireSeconds := n\<rparr>"

definition repairLock :: "'a RedisLock_scheme \<Rightarrow> 'a RedisLock_scheme" where
  "repairLock lo =
     (let lo1 = (if isBlock lo \<and> sint (blockWaitingSeconds lo) \<le> 0
                 then lo\<lparr>blockWaitingSeconds := 5\<rparr> else lo)
      in if 0 < sint (expireSeconds lo1) then lo1
         else lo1\<lparr>expireSeconds := DefaultLockExpireSeconds, watchDogMode := True\<rparr>)"

text \<open>
  The token is \<open>utils.GetProcessAndGoroutineIDStr()\<close>: the process id and the id of the
  calling goroutine, which are given here.
\<close>

definition NewRedisLock :: "string \<Rightarrow> Client \<Rightarrow> LockOption list \<Rightarrow> string \<Rightarrow> RedisLock" where
  "NewRedisLock key' client' opts tok =
     repairLock (fold apply_LockOption opts
       \<lparr>isBlock = False, blockWaitingSeconds = 0, expireSeconds = 0, watchDogMode = False,
        key = key', token = tok, client = client', runningDog = 0, stopDog = None\<rparr>)"

definition RedisLockKeyPrefix :: string where
  "RedisLockKeyPrefix = ''REDIS_LOCK_PREFIX_''"

definition getLockKey :: "RedisLock \<Rightarrow> string" where
  "getLockKey r = RedisLockKeyPrefix @ key r"

definition tryLock :: "RedisLock \<Rightarrow> Context \<Rightarrow> world \<Rightarrow> error option result \<times> world" where
  "tryLock r ctx w =
     bind (SetNX (client r) ctx (getLockKey r) (token r) (expireSeconds r) w) (\<lambda>(reply', err) w1.
       if Is err (Ext ErrNil)
         then (Returns (Some (Errorf ''redis.ErrNil: SETNX failed, lock not acquired, retryable: reply: %d, err: %w''
                 ErrLockAcquiredByOthers)), w1)
       else if err \<noteq> None then (Returns err, w1)
       else (Returns None, w1))"

subsection \<open>The poll loop\<close>

text \<open>
  What happens around a loop is given from outside: what the other clients and goroutines
  do to the world before the i-th tick of the loop's ticker, and which ready case a
  \<open>select\<close> takes at that tick when the context and the timer are both ready (Go picks
  one at random). The clock belongs to the loop: a tick comes one period after the
  previous iteration ended.
\<close>

record outside =
  acts :: "nat \<Rightarrow> world \<Rightarrow> world"
  prefers_ctx :: "nat \<Rightarrow> bool"

definition next_tick :: "int \<Rightarrow> outside \<Rightarrow> nat \<Rightarrow> world \<Rightarrow> world" where
  "next_tick period out i w = (acts out i w)\<lparr>clock := clock w + period\<rparr>"

definition timed_out :: error where
  "timed_out = Errorf ''block waiting time out, err: %w'' ErrLockAcquiredByOthers"

definition ctx_timeout :: "ext_error \<Rightarrow> error" where
  "ctx_timeout e = Errorf ''lock failed, ctx timeout, err: %w'' (Ext e)"

text \<open>
  The loop of \<open>blockingLock\<close> from its i-th tick on: \<open>deadline\<close> is the instant at which
  \<open>time.After\<close> fires, the ticker's period is 50 ms.
\<close>

function poll ::
  "RedisLock \<Rightarrow> Context \<Rightarrow> int \<Rightarrow> outside \<Rightarrow> nat \<Rightarrow> world \<Rightarrow> error option result \<times> world"
where
  "poll r ctx deadline out i w =
     (let w1 = next_tick 50000000 out i w;
          timeReady = (deadline \<le> clock w1)
      in case ctxErr w1 ctx of
           Some e \<Rightarrow>
             if timeReady \<and> \<not> prefers_ctx out i then (Returns (Some timed_out), w1)
             else (Returns (Some (ctx_timeout e)), w1)
         | None \<Rightarrow>
             if timeReady then (Returns (Some timed_out), w1)
             else (case tryLock r ctx w1 of
                     (Returns None, w2) \<Rightarrow> (Returns None, w2)
                   | (Returns (Some err), w2) \<Rightarrow>
                       if \<not> IsRetryableErr (Some err) then (Returns (Some err), w2)
                       else poll r ctx deadline out (Suc i) w2
                   | (Panics m, w2) \<Rightarrow> (Panics m, w2)
                   | (Spins, w2) \<Rightarrow> (Spins, w2)))"
  by pat_completeness auto
termination
proof (relation "measure (\<lambda>(r, ctx, deadline, out, i, w). nat (deadline - clock w))")
  show "wf (measure (\<lambda>(r, ctx, deadline, out, i, w). nat (deadline - clock w)))"
    by simp
next
  fix r :: RedisLock and ctx deadline out i w w1 timeReady x w2
  assume w1: "w1 = next_tick 50000000 out i w"
    and ready: "timeReady = (deadline \<le> clock w1)" "\<not> timeReady"
    and run: "(x, w2) = tryLock r ctx w1"
  text \<open>The clock only moves forward during an attempt.\<close>
  have c1: "clock v1 = clock v" if "take_call v = (e, v1)" for v e v1
    using that by (auto simp: take_call_def split: list.splits)
  have c2: "clock v \<le> clock v1" if "getConn c cx v = (g, v1)" for c cx v g v1
    using that
    by (auto simp: getConn_def split: if_splits prod.splits option.splits fault.splits dest: c1)
  have c3: "clock v \<le> clock v1" if "conn_Do cn cmd v = (a, v1)" for cn cmd v a v1
    using that
    by (auto simp: conn_Do_def Let_def split: prod.splits option.splits fault.splits reply.splits
        if_splits)
  have c4: "clock v \<le> clock v1" if s: "SetNX c cx k val ex v = (a, v1)" for c cx k val ex v a v1
  proof (cases "k = [] \<or> val = []")
    case True
    with s show ?thesis by (auto simp: SetNX_def)
  next
    case False
    obtain g vg where g: "getConn c cx v = (g, vg)" by (cases "getConn c cx v")
    have le: "clock v \<le> clock vg" using g by (rule c2)
    show ?thesis
    proof (cases g)
      case (Returns got)
      show ?thesis
      proof (cases got)
        case (Inl err)
        with s False g Returns le show ?thesis by (auto simp: SetNX_def)
      next
        case (Inr cn)
        obtain rep err v2 where d: "conn_Do cn (SET_EX_NX k val ex) vg = ((rep, err), v2)"
          by (cases "conn_Do cn (SET_EX_NX k val ex) vg") auto
        have "clock vg \<le> clock v2" using d by (rule c3)
        moreover have "v1 = v2"
          using s False g Returns Inr d by (auto simp: SetNX_def split: if_splits prod.splits)
        ultimately show ?thesis using le by simp
      qed
    next
      case (Panics m)
      with s False g le show ?thesis by (auto simp: SetNX_def)
    next
      case Spins
      with s False g le show ?thesis by (auto simp: SetNX_def)
    qed
  qed
  obtain s vs where s: "SetNX (client r) ctx (getLockKey r) (token r) (expireSeconds r) w1 = (s, vs)"
    by (cases "SetNX (client r) ctx (getLockKey r) (token r) (expireSeconds r) w1")
  have "clock w1 \<le> clock vs" using s by (rule c4)
  moreover have "w2 = vs"
    using run s by (cases s) (auto simp: tryLock_def split: if_splits prod.splits)
  moreover have "clock w1 = clock w + 50000000" using w1 by (simp add: next_tick_def)
  ultimately show "((r, ctx, deadline, out, Suc i, w2), (r, ctx, deadline, out, i, w))
      \<in> measure (\<lambda>(r, ctx, deadline, out, i, w). nat (deadline - clock w))"
    using ready by simp
qed

definition blockingLock :: "RedisLock \<Rightarrow> Context \<Rightarrow> outside \<Rightarrow> world \<Rightarrow> error option result \<times> world" where
  "blockingLock r ctx out w =
     poll r ctx (clock w + sint (blockWaitingSeconds r * Second)) out 0 w"

subsection \<open>The watchdog\<close>

text \<open>
  \<open>watchDog\<close> returns at once outside watchdog mode. Otherwise it waits, spinning, for the
  flag \<open>runningDog\<close> to be 0, sets it, makes a child of the context it was given, keeps the
  child's cancel function in \<open>stopDog\<close> and starts a goroutine that runs \<open>runWatchDog\<close>
  with the child. The result is the context of the goroutine started, if any.
\<close>

definition watchDog :: "RedisLock \<Rightarrow> Context \<Rightarrow> world \<Rightarrow> Context option result \<times> RedisLock \<times> world" where
  "watchDog r ctx w =
     (if \<not> watchDogMode r then (Returns None, r, w)
      else if runningDog r \<noteq> 0 then (Spins, r, w)
      else (Returns (Some (WithCancel (fresh w) ctx)),
            r\<lparr>runningDog := 1, stopDog := Some (fresh w)\<rparr>,
            w\<lparr>fresh := Suc (fresh w)\<rparr>))"

text \<open>
  The body of \<open>Lock\<close>, with the value the named result \<open>err\<close> has when the body ends: the
  deferred function reads it. A panic of the first attempt leaves \<open>err\<close> nil.
\<close>

definition Lock_body ::
  "RedisLock \<Rightarrow> Context \<Rightarrow> outside \<Rightarrow> world \<Rightarrow> (error option result \<times> error option) \<times> world"
where
  "Lock_body r ctx out w =
     (case tryLock r ctx w of
        (Returns None, w1) \<Rightarrow> ((Returns None, None), w1)
      | (Returns (Some err), w1) \<Rightarrow>
          if \<not> isBlock r then ((Returns (Some err), Some err), w1)
          else if \<not> IsRetryableErr (Some err) then ((Returns (Some err), Some err), w1)
          else (case blockingLock r ctx out w1 of
                  (Returns err', w2) \<Rightarrow> ((Returns err', err'), w2)
                | (Panics m, w2) \<Rightarrow> ((Panics m, Some err), w2)
                | (Spins, w2) \<Rightarrow> ((Spins, Some err), w2))
      | (Panics m, w1) \<Rightarrow> ((Panics m, None), w1)
      | (Spins, w1) \<Rightarrow> ((Spins, None), w1))"

text \<open>
  \<open>Lock\<close>: the body, then the deferred function, which starts the watchdog when \<open>err\<close> is
  nil. The result is the error returned and the context of the watchdog goroutine started.
\<close>

definition Lock ::
  "RedisLock \<Rightarrow> Context \<Rightarrow> outside \<Rightarrow> world \<Rightarrow> (error option \<times> Context option) result \<times> RedisLock \<times> world"
where
  "Lock r ctx out w =
     (case Lock_body r ctx out w of
        ((Spins, err), w1) \<Rightarrow> (Spins, r, w1)
      | ((res, Some e), w1) \<Rightarrow>
          (case res of Returns x \<Rightarrow> (Returns (x, None), r, w1)
           | Panics m \<Rightarrow> (Panics m, r, w1) | Spins \<Rightarrow> (Spins, r, w1))
      | ((res, None), w1) \<Rightarrow>
          (case watchDog r ctx w1 of
             (Returns dog, r', w2) \<Rightarrow>
               (case res of Returns x \<Rightarrow> (Returns (x, dog), r', w2)
                | Panics m \<Rightarrow> (Panics m, r', w2) | Spins \<Rightarrow> (Spins, r', w2))
           | (Panics m, r', w2) \<Rightarrow> (Panics m, r', w2)
           | (Spins, r', w2) \<Rightarrow> (Spins, r', w2)))"

text \<open>The type assertion \<open>reply.(int64)\<close>: zero for a reply that is not an \<open>int64\<close>.\<close>

fun as_int64 :: "reply \<Rightarrow> int64" where
  "as_int64 (Int64 n) = n"
| "as_int64 rep = 0"

definition DelayExpire :: "RedisLock \<Rightarrow> Context \<Rightarrow> int64 \<Rightarrow> world \<Rightarrow> error option result \<times> world" where
  "DelayExpire r ctx expireSeconds' w =
     bind (Eval (client r) ctx LuaCheckAndExpireDistributionLock 1
             [S (getLockKey r), S (token r), I expireSeconds'] w) (\<lambda>(reply', err) w1.
       if err \<noteq> None then (Returns err, w1)
       else if as_int64 reply' \<noteq> 1
         then (Returns (Some (New ''can not expire lock without ownership of lock'')), w1)
       else (Returns None, w1))"

text \<open>
  \<open>runWatchDog\<close> observed for a number of ticks of its ticker (period 3 s), from the i-th
  on: it has exited, or it is still in its loop after the last tick observed.
\<close>

datatype dog = Exited | Running

fun runWatchDog ::
  "RedisLock \<Rightarrow> Context \<Rightarrow> outside \<Rightarrow> nat \<Rightarrow> nat \<Rightarrow> world \<Rightarrow> dog result \<times> world"
where
  "runWatchDog r ctx out i 0 w = (Returns Running, w)"
| "runWatchDog r ctx out i (Suc n) w =
     (let w1 = next_tick (sint (WatchDogWorkStepSeconds * Second)) out i w in
      if Done w1 ctx then (Returns Exited, w1)
      else (case DelayExpire r ctx (WatchDogWorkStepSeconds + 3) w1 of
              (Returns renewed, w2) \<Rightarrow> runWatchDog r ctx out (Suc i) n w2
            | (Panics m, w2) \<Rightarrow> (Panics m, w2)
            | (Spins, w2) \<Rightarrow> (Spins, w2)))"

text \<open>
  \<open>Unlock\<close>: the body sends the delete script; the deferred function then calls \<open>stopDog\<close>,
  also after a panic of the body. Calling the nil function value panics.
\<close>

definition Unlock_body :: "RedisLock \<Rightarrow> Context \<Rightarrow> world \<Rightarrow> error option result \<times> world" where
  "Unlock_body r ctx w =
     bind (Eval (client r) ctx LuaCheckAndDeleteDistributionLock 1
             [S (getLockKey r), S (token r)] w) (\<lambda>(reply', err) w1.
       if err \<noteq> None then (Returns err, w1)
       else if as_int64 reply' \<noteq> 1
         then (Returns (Some (New ''can not unlock without ownership of lock'')), w1)
       else (Returns None, w1))"

definition nil_call :: string where
  "nil_call = ''runtime error: invalid memory address or nil pointer dereference''"

definition Unlock :: "RedisLock \<Rightarrow> Context \<Rightarrow> world \<Rightarrow> error option result \<times> world" where
  "Unlock r ctx w =
     (case Unlock_body r ctx w of
        (Spins, w1) \<Rightarrow> (Spins, w1)
      | (res, w1) \<Rightarrow>
          (case stopDog r of
             None \<Rightarrow> (Panics nil_call, w1)
           | Some h \<Rightarrow> (res, w1\<lparr>cancelled := insert h (cancelled w1)\<rparr>)))"

section \<open>option.go and redlock.go: the quorum lock\<close>

record RedLockOptions =
  singleNodesTimeout :: Duration
  expireDuration :: Duration

datatype RedLockOption = WithSingleNodesTimeout Duration | WithRedLockExpireDuration Duration

record SingleNodeConf =
  Network :: string
  Address :: string
  Password :: string
  Opts :: "ClientOption list"

record RedLock = RedLockOptions +
  locks :: "RedisLock list"

fun apply_RedLockOption :: "RedLockOption \<Rightarrow> 'a RedLockOptions_scheme \<Rightarrow> 'a RedLockOptions_scheme" where
  "apply_RedLockOption (WithSingleNodesTimeout t) o' = o'\<lparr>singleNodesTimeout := t\<rparr>"
| "apply_RedLockOption (WithRedLockExpireDuration d) o' = o'\<lparr>expireDuration := d\<rparr>"

definition DefaultSingleLockTimeout :: Duration where
  "DefaultSingleLockTimeout = 50 * Millisecond"

definition repairRedLock :: "'a RedLockOptions_scheme \<Rightarrow> 'a RedLockOptions_scheme" where
  "repairRedLock o' =
     (if sint (singleNodesTimeout o') \<le> 0 then o'\<lparr>singleNodesTimeout := DefaultSingleLockTimeout\<rparr>
      else o')"

text \<open>
  \<open>int64(d.Seconds())\<close>: the whole seconds of a duration, rounded towards zero.
  \<open>Seconds\<close> is a \<open>float64\<close>; its rounding, which can differ from this for durations of
  more than 2^22 seconds, is left out.
\<close>

definition whole_seconds :: "Duration \<Rightarrow> int64" where
  "whole_seconds d = word_of_int (sgn (sint d) * (\<bar>sint d\<bar> div 1000000000))"

definition NewRedLock ::
  "string \<Rightarrow> SingleNodeConf list \<Rightarrow> RedLockOption list \<Rightarrow> string \<Rightarrow> error + RedLock"
where
  "NewRedLock key' confs opts tok =
     (if length confs < 3 then Inl (New ''can not use redLock less than 3 nodes'')
      else
        let r = repairRedLock (fold apply_RedLockOption opts
                  \<lparr>singleNodesTimeout = 0, expireDuration = 0, locks = []\<rparr>)
        in if 0 < sint (expireDuration r)
              \<and> sint (expireDuration r) < sint (word_of_nat (length confs) * singleNodesTimeout r * 10)
           then Inl (New ''expire thresholds of single node is too long'')
           else Inr (r\<lparr>locks :=
                  map (\<lambda>conf. NewRedisLock key'
                         (NewClient (Network conf) (Address conf) (Password conf) (Opts conf))
                         [WithExpireSeconds (whole_seconds (expireDuration r))] tok) confs\<rparr>))"

text \<open>\<open>RedLock.Unlock\<close>: the loop over the member locks, \<open>err\<close> being the error kept so far.\<close>

fun unlock_each :: "RedisLock list \<Rightarrow> Context \<Rightarrow> error option \<Rightarrow> world \<Rightarrow> error option result \<times> world" where
  "unlock_each [] ctx err w = (Returns err, w)"
| "unlock_each (lock # rest) ctx err w =
     (case Unlock lock ctx w of
        (Returns (Some e), w1) \<Rightarrow> unlock_each rest ctx (Some e) w1
      | (Returns None, w1) \<Rightarrow> unlock_each rest ctx err w1
      | (Panics m, w1) \<Rightarrow> (Panics m, w1)
      | (Spins, w1) \<Rightarrow> (Spins, w1))"

definition RedLock_Unlock :: "RedLock \<Rightarrow> Context \<Rightarrow> world \<Rightarrow> error option result \<times> world" where
  "RedLock_Unlock r ctx w = unlock_each (locks r) ctx None w"

text \<open>\<open>time.Since\<close>: the time elapsed, at most the largest \<open>Duration\<close>.\<close>

definition Since :: "int \<Rightarrow> world \<Rightarrow> int" where
  "Since startTime w = min (clock w - startTime) (2 ^ 63 - 1)"

text \<open>
  The loop of \<open>RedLock.Lock\<close> over the member locks: \<open>successCnt\<close> so far, and the cancel
  functions deferred so far (latest first). Each member is locked under a child context
  with the per-node timeout.
\<close>

fun lock_each ::
  "RedisLock list \<Rightarrow> Context \<Rightarrow> Duration \<Rightarrow> outside \<Rightarrow> nat \<Rightarrow> nat list \<Rightarrow> world
     \<Rightarrow> nat result \<times> nat list \<times> RedisLock list \<times> world"
where
  "lock_each [] ctx t out successCnt deferred w = (Returns successCnt, deferred, [], w)"
| "lock_each (lock # rest) ctx t out successCnt deferred w =
     (let startTime = clock w;
          cancel = fresh w;
          ctx' = WithTimeout cancel (startTime + sint t) ctx
      in case Lock lock ctx' out (w\<lparr>fresh := Suc cancel\<rparr>) of
           (Returns (err, dog), lock', w1) \<Rightarrow>
             (let cost = Since startTime w1;
                  cnt = (if err = None \<and> cost \<le> sint t then Suc successCnt else successCnt)
              in case lock_each rest ctx t out cnt (cancel # deferred) w1 of
                   (res, deferred', rest', w2) \<Rightarrow> (res, deferred', lock' # rest', w2))
         | (Panics m, lock', w1) \<Rightarrow> (Panics m, cancel # deferred, lock' # rest, w1)
         | (Spins, lock', w1) \<Rightarrow> (Spins, cancel # deferred, lock' # rest, w1))"

definition cancel_all :: "nat list \<Rightarrow> world \<Rightarrow> world" where
  "cancel_all hs w = w\<lparr>cancelled := set hs \<union> cancelled w\<rparr>"

definition quorum_failed :: error where
  "quorum_failed = New ''lock failed, no majority of the nodes''"

text \<open>
  \<open>RedLock.Lock\<close>: the loop, the majority check with the broadcast \<open>Unlock\<close> (whose result
  is dropped), and the deferred cancel functions, which run when the call returns or
  panics.
\<close>

definition RedLock_Lock ::
  "RedLock \<Rightarrow> Context \<Rightarrow> outside \<Rightarrow> world \<Rightarrow> error option result \<times> RedLock \<times> world"
where
  "RedLock_Lock r ctx out w =
     (case lock_each (locks r) ctx (singleNodesTimeout r) out 0 [] w of
        (Spins, deferred, ls, w1) \<Rightarrow> (Spins, r\<lparr>locks := ls\<rparr>, w1)
      | (Panics m, deferred, ls, w1) \<Rightarrow> (Panics m, r\<lparr>locks := ls\<rparr>, cancel_all deferred w1)
      | (Returns successCnt, deferred, ls, w1) \<Rightarrow>
          if successCnt < length (locks r) div 2 + 1 then
            (case RedLock_Unlock (r\<lparr>locks := ls\<rparr>) ctx w1 of
               (Returns dropped, w2) \<Rightarrow>
                 (Returns (Some quorum_failed), r\<lparr>locks := ls\<rparr>, cancel_all deferred w2)
             | (Panics m, w2) \<Rightarrow> (Panics m, r\<lparr>locks := ls\<rparr>, cancel_all deferred w2)
             | (Spins, w2) \<Rightarrow> (Spins, r\<lparr>locks := ls\<rparr>, w2))
          else (Returns None, r\<lparr>locks := ls\<rparr>, cancel_all deferred w1))"

section \<open>Notions used in the statements\<close>

text \<open>
  An instance holds its key while the record stored under the prefixed key is unexpired
  and equals its token.
\<close>

definition holds :: "world \<Rightarrow> RedisLock \<Rightarrow> bool" where
  "holds w r =
     (redis_get (clock w) (servers w (address (pool (client r)))) (getLockKey r) = Some (token r))"

text \<open>The options of a quorum lock after the option functions and \<open>repairRedLock\<close>.\<close>

definition settled :: "RedLockOption list \<Rightarrow> RedLock" where
  "settled opts = repairRedLock (fold apply_RedLockOption opts
                    \<lparr>singleNodesTimeout = 0, expireDuration = 0, locks = []\<rparr>)"


text \<open>
  The words of the spec for the release of the quorum lock: \<open>Unlock\<close> is called on every
  member in turn, and the last error met is returned.
\<close>

fun unlock_in_turn :: "RedisLock list \<Rightarrow> Context \<Rightarrow> world \<Rightarrow> error option result list \<times> world" where
  "unlock_in_turn [] ctx w = ([], w)"
| "unlock_in_turn (lock # rest) ctx w =
     (case Unlock lock ctx w of (res, w1) \<Rightarrow>
        (case unlock_in_turn rest ctx w1 of (rs, w2) \<Rightarrow> (res # rs, w2)))"

fun last_error :: "error option \<Rightarrow> error option result list \<Rightarrow> error option" where
  "last_error err [] = err"
| "last_error err (Returns (Some e) # rs) = last_error (Some e) rs"
| "last_error err (res # rs) = last_error err rs"

section \<open>Inputs used in the examples\<close>

definition node :: Client where
  "node = NewClient ''tcp'' ''10.0.0.1:6379'' [] []"

definition quiet :: outside where
  "quiet = \<lparr>acts = (\<lambda>i w. w), prefers_ctx = (\<lambda>i. True)\<rparr>"

definition start :: world where
  "start = \<lparr>servers = (\<lambda>a. Map.empty), clock = 0, upcoming = [], cancelled = {}, fresh = 0, sent = []\<rparr>"

definition held :: world where
  "held = start\<lparr>servers := (\<lambda>a. [''REDIS_LOCK_PREFIX_test_key'' \<mapsto> (''7_1'', 10000000000)])\<rparr>"

definition lock_a :: RedisLock where
  "lock_a = NewRedisLock ''test_key'' node [] ''7_2''"

definition lock_1s :: RedisLock where
  "lock_1s = NewRedisLock ''test_key'' node [WithExpireSeconds 1] ''7_1''"

definition confs3 :: "SingleNodeConf list" where
  "confs3 = [\<lparr>Network = ''tcp'', Address = ''10.0.0.1:6379'', Password = [], Opts = []\<rparr>,
             \<lparr>Network = ''tcp'', Address = ''10.0.0.2:6379'', Password = [], Opts = []\<rparr>,
             \<lparr>Network = ''tcp'', Address = ''10.0.0.3:6379'', Password = [], Opts = []\<rparr>]"

definition test_opts :: "RedLockOption list" where
  "test_opts = [WithRedLockExpireDuration (10 * Second), WithSingleNodesTimeout (100 * Millisecond)]"

definition other_holds :: db where
  "other_holds = [''REDIS_LOCK_PREFIX_test_key'' \<mapsto> (''9_9'', 10000000000)]"

definition two_held :: world where
  "two_held = start\<lparr>servers := (\<lambda>a. if a = ''10.0.0.3:6379'' then Map.empty else other_holds)\<rparr>"

definition lock_dog :: RedisLock where
  "lock_dog = NewRedisLock ''test_key'' node [] ''7_5''"

definition broken :: world where
  "broken = held\<lparr>upcoming := [\<lparr>fault = None, latency = 5\<rparr>,
                                \<lparr>fault = Some (ConnFails (Failure ''dial tcp: timeout'')), latency = 7\<rparr>,
                                \<lparr>fault = Some (DoFails (Failure ''EOF'') True), latency = 9\<rparr>]\<rparr>"

definition start1 :: world where
  "start1 = start\<lparr>fresh := 1\<rparr>"



section \<open>Error translation of the acquire attempt\<close>

lemma getConn_not_Spins: "fst (getConn c ctx w) \<noteq> Spins"
  by (auto simp: getConn_def split: prod.splits option.splits fault.splits)

lemma SetNX_error_is_external:
  assumes "SetNX c ctx k v ex w = (Returns (n, Some e), w1)"
  shows "\<exists>x. e = Ext x"
proof -
  from assms have ne: "\<not> (k = [] \<or> v = [])" by (auto simp: SetNX_def)
  obtain g wg where g: "getConn c ctx w = (g, wg)" by (cases "getConn c ctx w")
  show ?thesis
  proof (cases g)
    case (Returns got)
    show ?thesis
    proof (cases got)
      case (Inl err)
      with assms ne g Returns show ?thesis by (auto simp: SetNX_def)
    next
      case (Inr cn)
      obtain rep err w2 where d: "conn_Do cn (SET_EX_NX k v ex) wg = ((rep, err), w2)"
        by (cases "conn_Do cn (SET_EX_NX k v ex) wg") auto
      from assms ne g Returns Inr d show ?thesis
        by (auto simp: SetNX_def ext_def split: if_splits prod.splits)
    qed
  next
    case (Panics m)
    with assms ne g show ?thesis by (auto simp: SetNX_def)
  next
    case Spins
    with assms ne g show ?thesis by (auto simp: SetNX_def)
  qed
qed

lemma retryable_contention:
  "IsRetryableErr (Some (Errorf m ErrLockAcquiredByOthers))"
  by (simp add: IsRetryableErr_def)

lemma external_not_retryable: "\<not> IsRetryableErr (Some (Ext x))"
  by (simp add: IsRetryableErr_def)

lemma take_call_frame:
  "servers (snd (take_call w)) = servers w" "clock (snd (take_call w)) = clock w"
  "cancelled (snd (take_call w)) = cancelled w" "fresh (snd (take_call w)) = fresh w"
  "sent (snd (take_call w)) = sent w"
  by (auto simp: take_call_def split: list.splits)

lemma SetNX_key_present:
  assumes "k \<noteq> []" "v \<noteq> []" "address (pool c) \<noteq> []" "0 < sint ex"
    and "fault (fst (take_call w)) = None"
    and "redis_get (clock w) (servers w (address (pool c))) k \<noteq> None"
  shows "\<exists>w1. SetNX c ctx k v ex w = (Returns (0, Some (Ext ErrNil)), w1)"
proof -
  obtain e w0 where t: "take_call w = (e, w0)" by (cases "take_call w")
  with assms(5) have f: "fault e = None" by simp
  from t take_call_frame(1,2) [of w] have same: "servers w0 = servers w" "clock w0 = clock w"
    by simp_all
  have g: "getConn c ctx w = (Returns (Inr \<lparr>peer = address (pool c), fate = e\<rparr>), w0)"
    using assms(3) t f by (simp add: getConn_def)
  have "exec_command (clock w0) (servers w0 (address (pool c))) (SET_EX_NX k v ex)
          = (Nil, servers w0 (address (pool c)))"
    using assms(4,6) same by (simp add: redis_set_ex_nx_def)
  then show ?thesis
    using assms(1,2) g f by (simp add: SetNX_def conn_Do_def ext_def)
qed

text \<open>
  Claim C6. \<open>tryLock\<close> turns the nil outcome of the conditional set (\<open>redis.ErrNil\<close>,
  which \<open>SetNX\<close> returns when the key is present) into an error that wraps
  \<open>ErrLockAcquiredByOthers\<close>, on which \<open>IsRetryableErr\<close> is true; every other error of
  \<open>SetNX\<close> is returned as it is, and \<open>IsRetryableErr\<close> is false on it.
\<close>

theorem tryLock_translates_errors:
  "(SetNX (client r) ctx (getLockKey r) (token r) (expireSeconds r) w = (Returns (n, Some (Ext ErrNil)), w1)
      \<longrightarrow> (\<exists>m. tryLock r ctx w = (Returns (Some (Errorf m ErrLockAcquiredByOthers)), w1)
               \<and> IsRetryableErr (Some (Errorf m ErrLockAcquiredByOthers))))
   \<and> (SetNX (client r) ctx (getLockKey r) (token r) (expireSeconds r) w = (Returns (n, Some e), w1)
        \<and> e \<noteq> Ext ErrNil
      \<longrightarrow> tryLock r ctx w = (Returns (Some e), w1) \<and> \<not> IsRetryableErr (Some e))
   \<and> (token r \<noteq> [] \<and> address (pool (client r)) \<noteq> [] \<and> 0 < sint (expireSeconds r)
        \<and> fault (fst (take_call w)) = None
        \<and> redis_get (clock w) (servers w (address (pool (client r)))) (getLockKey r) \<noteq> None
      \<longrightarrow> (\<exists>m w'. tryLock r ctx w = (Returns (Some (Errorf m ErrLockAcquiredByOthers)), w')))"
proof (intro conjI impI)
  assume "SetNX (client r) ctx (getLockKey r) (token r) (expireSeconds r) w
            = (Returns (n, Some (Ext ErrNil)), w1)"
  then show "\<exists>m. tryLock r ctx w = (Returns (Some (Errorf m ErrLockAcquiredByOthers)), w1)
               \<and> IsRetryableErr (Some (Errorf m ErrLockAcquiredByOthers))"
    by (simp add: tryLock_def retryable_contention)
next
  assume a: "SetNX (client r) ctx (getLockKey r) (token r) (expireSeconds r) w = (Returns (n, Some e), w1)
               \<and> e \<noteq> Ext ErrNil"
  then obtain x where x: "e = Ext x" by (blast dest: SetNX_error_is_external)
  with a show "tryLock r ctx w = (Returns (Some e), w1)" by (simp add: tryLock_def)
  from x show "\<not> IsRetryableErr (Some e)" by (simp add: external_not_retryable)
next
  assume a: "token r \<noteq> [] \<and> address (pool (client r)) \<noteq> [] \<and> 0 < sint (expireSeconds r)
        \<and> fault (fst (take_call w)) = None
        \<and> redis_get (clock w) (servers w (address (pool (client r)))) (getLockKey r) \<noteq> None"
  have "getLockKey r \<noteq> []" by (simp add: getLockKey_def RedisLockKeyPrefix_def)
  with a obtain w' where
    "SetNX (client r) ctx (getLockKey r) (token r) (expireSeconds r) w = (Returns (0, Some (Ext ErrNil)), w')"
    using SetNX_key_present [of "getLockKey r" "token r" "client r" "expireSeconds r" w ctx] by blast
  then show "\<exists>m w'. tryLock r ctx w = (Returns (Some (Errorf m ErrLockAcquiredByOthers)), w')"
    by (simp add: tryLock_def)
qed

lemmas example_defs = node_def quiet_def start_def held_def lock_a_def NewRedisLock_def NewClient_def
  repairLock_def repairClient_def getLockKey_def RedisLockKeyPrefix_def DefaultLockExpireSeconds_def

theorem tryLock_translates_errors_witness:
  "(\<exists>m w'. tryLock lock_a Background held = (Returns (Some (Errorf m ErrLockAcquiredByOthers)), w')
      \<and> IsRetryableErr (Some (Errorf m ErrLockAcquiredByOthers)))
   \<and> (redis_get (clock held) (servers held (address (pool (client lock_a)))) (getLockKey lock_a)
        = Some ''7_1''
      \<and> (\<exists>m w'. tryLock lock_a Background (held\<lparr>upcoming := [\<lparr>fault = None, latency = 2\<rparr>]\<rparr>)
                  = (Returns (Some (Errorf m ErrLockAcquiredByOthers)), w')))
   \<and> (\<exists>w'. tryLock lock_a Background (held\<lparr>upcoming := [\<lparr>fault = Some (DoFails (Failure ''EOF'') False), latency = 3\<rparr>]\<rparr>)
              = (Returns (Some (Ext (Failure ''EOF''))), w')
      \<and> \<not> IsRetryableErr (Some (Ext (Failure ''EOF''))))"
proof -
  obtain n w1 where s1: "SetNX (client lock_a) Background (getLockKey lock_a) (token lock_a)
      (expireSeconds lock_a) held = (Returns (n, Some (Ext ErrNil)), w1)"
    by (simp add: example_defs SetNX_def getConn_def take_call_def conn_Do_def
        redis_set_ex_nx_def redis_get_def ext_def)
  obtain n' w2 where s2: "SetNX (client lock_a) Background (getLockKey lock_a) (token lock_a)
      (expireSeconds lock_a) (held\<lparr>upcoming := [\<lparr>fault = Some (DoFails (Failure ''EOF'') False), latency = 3\<rparr>]\<rparr>)
        = (Returns (n', Some (Ext (Failure ''EOF''))), w2)"
    by (simp add: example_defs SetNX_def getConn_def take_call_def conn_Do_def
        redis_set_ex_nx_def redis_get_def ext_def)
  from s1 tryLock_translates_errors [where r = lock_a and ctx = Background and w = held and n = n and ?w1.0 = w1]
  have "\<exists>m. tryLock lock_a Background held = (Returns (Some (Errorf m ErrLockAcquiredByOthers)), w1)
      \<and> IsRetryableErr (Some (Errorf m ErrLockAcquiredByOthers))" by blast
  moreover from s2 tryLock_translates_errors [where r = lock_a and ctx = Background and n = n' and e = "Ext (Failure ''EOF'')" and ?w1.0 = w2]
  have "tryLock lock_a Background (held\<lparr>upcoming := [\<lparr>fault = Some (DoFails (Failure ''EOF'') False), latency = 3\<rparr>]\<rparr>)
              = (Returns (Some (Ext (Failure ''EOF''))), w2)
      \<and> \<not> IsRetryableErr (Some (Ext (Failure ''EOF'')))" by simp
  moreover have present: "redis_get (clock held) (servers held (address (pool (client lock_a))))
      (getLockKey lock_a) = Some ''7_1''"
    by (simp add: example_defs redis_get_def)
  moreover have "\<exists>m w'. tryLock lock_a Background (held\<lparr>upcoming := [\<lparr>fault = None, latency = 2\<rparr>]\<rparr>)
                  = (Returns (Some (Errorf m ErrLockAcquiredByOthers)), w')"
    using tryLock_translates_errors [where r = lock_a and ctx = Background
        and w = "held\<lparr>upcoming := [\<lparr>fault = None, latency = 2\<rparr>]\<rparr>"]
    by (simp add: example_defs redis_get_def take_call_def)
  ultimately show ?thesis by blast
qed

lemmas input_defs = example_defs lock_1s_def confs3_def test_opts_def

lemma ToLower_OK: "ToLower ''OK'' = ''ok''"
  by code_simp

lemmas run_defs = tryLock_def SetNX_def Eval_def getConn_def take_call_def conn_Do_def
  redis_set_ex_nx_def redis_get_def redis_del_def redis_expire_def ext_def
  Lock_def Lock_body_def watchDog_def Unlock_def Unlock_body_def DelayExpire_def
  ToLower_OK

section \<open>Release and the watchdog's cancel function\<close>

lemma Eval_cases:
  "(address (pool c) = [] \<and> Eval c ctx src k args w = (Panics ''redis address is empty'', w))
   \<or> (address (pool c) \<noteq> [] \<and> (\<exists>x w1. Eval c ctx src k args w = (Returns x, w1)))"
  by (auto simp: Eval_def getConn_def split: prod.splits option.splits fault.splits)

lemma Unlock_body_not_Spins: "fst (Unlock_body r ctx w) \<noteq> Spins"
proof -
  let ?e = "Eval (client r) ctx LuaCheckAndDeleteDistributionLock 1 [S (getLockKey r), S (token r)] w"
  from Eval_cases [of "client r" ctx LuaCheckAndDeleteDistributionLock 1 "[S (getLockKey r), S (token r)]" w]
  consider "?e = (Panics ''redis address is empty'', w)" | x w1 where "?e = (Returns x, w1)"
    by blast
  then show ?thesis
    by cases (auto simp: Unlock_body_def split: prod.splits)
qed

lemma Unlock_nil_stopDog:
  assumes "stopDog r = None"
  shows "\<exists>w1. Unlock r ctx w = (Panics nil_call, w1)"
proof -
  obtain res w1 where b: "Unlock_body r ctx w = (res, w1)" by (cases "Unlock_body r ctx w")
  with Unlock_body_not_Spins [of r ctx w] have "res \<noteq> Spins" by simp
  with b assms show ?thesis by (cases res) (simp_all add: Unlock_def)
qed

lemma Unlock_not_Spins: "fst (Unlock r ctx w) \<noteq> Spins"
proof -
  obtain res w1 where b: "Unlock_body r ctx w = (res, w1)" by (cases "Unlock_body r ctx w")
  with Unlock_body_not_Spins [of r ctx w] have "res \<noteq> Spins" by simp
  with b show ?thesis by (cases res) (auto simp: Unlock_def split: option.splits)
qed

lemma unlock_each_nil_stopDog:
  assumes "\<exists>l \<in> set ls. stopDog l = None"
  shows "\<exists>m w1. unlock_each ls ctx err w = (Panics m, w1)"
  using assms
proof (induction ls arbitrary: err w)
  case Nil
  then show ?case by simp
next
  case (Cons l ls)
  obtain res w1 where u: "Unlock l ctx w = (res, w1)" by (cases "Unlock l ctx w")
  show ?case
  proof (cases "stopDog l")
    case None
    then show ?thesis using Unlock_nil_stopDog [of l ctx w] by auto
  next
    case (Some h)
    with Cons.prems have rest: "\<exists>l \<in> set ls. stopDog l = None" by auto
    show ?thesis
    proof (cases res)
      case (Returns e)
      with u rest Cons.IH show ?thesis by (cases e) auto
    next
      case (Panics m)
      with u show ?thesis by simp
    next
      case Spins
      with u Unlock_not_Spins [of l ctx w] show ?thesis by simp
    qed
  qed
qed

lemma fold_LockOption_fields:
  "stopDog (fold apply_LockOption opts r) = stopDog r"
  "runningDog (fold apply_LockOption opts r) = runningDog r"
  "key (fold apply_LockOption opts r) = key r"
  "token (fold apply_LockOption opts r) = token r"
  "client (fold apply_LockOption opts r) = client r"
proof (induction opts arbitrary: r)
  case Nil
  {
    case 1 show ?case by simp
  next
    case 2 show ?case by simp
  next
    case 3 show ?case by simp
  next
    case 4 show ?case by simp
  next
    case 5 show ?case by simp
  }
next
  case (Cons o' opts)
  {
    case 1 show ?case using Cons.IH(1) by (cases o') simp_all
  next
    case 2 show ?case using Cons.IH(2) by (cases o') simp_all
  next
    case 3 show ?case using Cons.IH(3) by (cases o') simp_all
  next
    case 4 show ?case using Cons.IH(4) by (cases o') simp_all
  next
    case 5 show ?case using Cons.IH(5) by (cases o') simp_all
  }
qed

lemma NewRedisLock_fields:
  "stopDog (NewRedisLock k c opts tok) = None"
  "runningDog (NewRedisLock k c opts tok) = 0"
  "key (NewRedisLock k c opts tok) = k"
  "token (NewRedisLock k c opts tok) = tok"
  "client (NewRedisLock k c opts tok) = c"
  by (simp_all add: NewRedisLock_def repairLock_def Let_def fold_LockOption_fields)

lemma Lock_body_named_result:
  assumes "Lock_body r ctx out w = ((Returns err, named), w1)"
  shows "named = err"
proof -
  obtain t wt where t: "tryLock r ctx w = (t, wt)" by (cases "tryLock r ctx w")
  show ?thesis
  proof (cases t)
    case (Returns e)
    show ?thesis
    proof (cases e)
      case None
      with assms t Returns show ?thesis by (simp add: Lock_body_def)
    next
      case (Some e')
      obtain b wb where b: "blockingLock r ctx out wt = (b, wb)" by (cases "blockingLock r ctx out wt")
      with assms t Returns Some show ?thesis
        by (cases b) (auto simp: Lock_body_def split: if_splits)
    qed
  next
    case (Panics m)
    with assms t show ?thesis by (simp add: Lock_body_def)
  next
    case Spins
    with assms t show ?thesis by (simp add: Lock_body_def)
  qed
qed

lemma Lock_leaves_stopDog:
  assumes "Lock r ctx out w = (Returns (err, dog), r', w')"
    and "\<not> watchDogMode r \<or> err \<noteq> None"
  shows "stopDog r' = stopDog r \<and> dog = None"
proof -
  obtain res named w1 where b: "Lock_body r ctx out w = ((res, named), w1)"
    by (cases "Lock_body r ctx out w") auto
  show ?thesis
  proof (cases res)
    case (Returns x)
    with b have n: "named = x" by (simp add: Lock_body_named_result)
    show ?thesis
    proof (cases named)
      case None
      with assms b Returns n show ?thesis
        by (auto simp: Lock_def watchDog_def split: if_splits)
    next
      case (Some e)
      with assms b Returns show ?thesis by (simp add: Lock_def)
    qed
  next
    case (Panics m)
    with assms(1) b show ?thesis
      by (cases named) (auto simp: Lock_def watchDog_def split: if_splits)
  next
    case Spins
    with assms(1) b show ?thesis by (cases named) (simp_all add: Lock_def)
  qed
qed

text \<open>
  Claim C5. \<open>Unlock\<close> on an instance whose \<open>stopDog\<close> is nil panics in its deferred function,
  whatever the store answered. \<open>stopDog\<close> is nil on a new instance and stays nil through
  a \<open>Lock\<close> outside watchdog mode (an expire time was given) and through a \<open>Lock\<close> that
  returned an error; \<open>RedLock.Unlock\<close> panics when a member has a nil \<open>stopDog\<close>.
\<close>

theorem Unlock_panics_without_watchdog:
  "(stopDog r = None \<longrightarrow> (\<exists>w1. Unlock r ctx w = (Panics nil_call, w1)))
   \<and> ((\<exists>l \<in> set (locks R). stopDog l = None) \<longrightarrow> (\<exists>m w1. RedLock_Unlock R ctx w = (Panics m, w1)))
   \<and> (Lock r ctx out w = (Returns (err, dog), r', w') \<and> (\<not> watchDogMode r \<or> err \<noteq> None)
        \<longrightarrow> stopDog r' = stopDog r \<and> dog = None)
   \<and> stopDog (NewRedisLock k c opts tok) = None
   \<and> (0 < sint n \<longrightarrow> \<not> watchDogMode (NewRedisLock k c [WithExpireSeconds n] tok))"
proof (intro conjI impI)
  assume "stopDog r = None"
  then show "\<exists>w1. Unlock r ctx w = (Panics nil_call, w1)" by (rule Unlock_nil_stopDog)
next
  assume "\<exists>l \<in> set (locks R). stopDog l = None"
  then show "\<exists>m w1. RedLock_Unlock R ctx w = (Panics m, w1)"
    unfolding RedLock_Unlock_def by (rule unlock_each_nil_stopDog)
next
  assume a: "Lock r ctx out w = (Returns (err, dog), r', w') \<and> (\<not> watchDogMode r \<or> err \<noteq> None)"
  then have "stopDog r' = stopDog r \<and> dog = None" using Lock_leaves_stopDog by blast
  then show "stopDog r' = stopDog r" and "dog = None" by simp_all
next
  show "stopDog (NewRedisLock k c opts tok) = None" by (rule NewRedisLock_fields)
next
  assume "0 < sint n"
  then show "\<not> watchDogMode (NewRedisLock k c [WithExpireSeconds n] tok)"
    by (simp add: NewRedisLock_def repairLock_def)
qed

theorem Unlock_panics_without_watchdog_witness:
  "(\<exists>w1. Unlock lock_1s Background start = (Panics nil_call, w1))
   \<and> (\<exists>R m w1. NewRedLock ''test_key'' confs3 test_opts ''7_1'' = Inr R
         \<and> RedLock_Unlock R Background start = (Panics m, w1))
   \<and> (\<exists>r' w1 w2. Lock lock_1s Background quiet start = (Returns (None, None), r', w1)
         \<and> stopDog r' = None \<and> Unlock r' Background w1 = (Panics nil_call, w2))
   \<and> (\<exists>e r' w1 w2. Lock lock_a Background quiet held = (Returns (Some e, None), r', w1)
         \<and> stopDog r' = None \<and> Unlock r' Background w1 = (Panics nil_call, w2))
   \<and> \<not> watchDogMode lock_1s"
proof -
  have nil: "stopDog lock_1s = None" "stopDog lock_a = None"
    by (simp_all add: lock_1s_def lock_a_def NewRedisLock_fields)
  have mode: "\<not> watchDogMode lock_1s"
    using Unlock_panics_without_watchdog [where n = 1 and k = "''test_key''" and c = node
        and tok = "''7_1''"]
    by (simp add: lock_1s_def)
  obtain R where R: "NewRedLock ''test_key'' confs3 test_opts ''7_1'' = Inr R"
      and member: "\<exists>l \<in> set (locks R). stopDog l = None"
    by (simp add: NewRedLock_def confs3_def test_opts_def repairRedLock_def Second_def
        Millisecond_def NewRedisLock_fields)
  obtain r1 w1 where l1: "Lock lock_1s Background quiet start = (Returns (None, None), r1, w1)"
    by (simp add: input_defs run_defs)
  obtain e r2 w2 where l2: "Lock lock_a Background quiet held = (Returns (Some e, None), r2, w2)"
    by (simp add: input_defs run_defs)
  have s1: "stopDog r1 = None"
    using l1 mode nil(1)
      Unlock_panics_without_watchdog [where r = lock_1s and ctx = Background and out = quiet
        and w = start and err = None and dog = None and r' = r1 and w' = w1]
    by simp
  have s2: "stopDog r2 = None"
    using l2 nil(2)
      Unlock_panics_without_watchdog [where r = lock_a and ctx = Background and out = quiet
        and w = held and err = "Some e" and dog = None and r' = r2 and w' = w2]
    by simp
  have "\<exists>w1. Unlock lock_1s Background start = (Panics nil_call, w1)"
    using nil(1) Unlock_panics_without_watchdog [where r = lock_1s and ctx = Background and w = start]
    by blast
  moreover have "\<exists>m w1. RedLock_Unlock R Background start = (Panics m, w1)"
    using member Unlock_panics_without_watchdog [where R = R and ctx = Background and w = start]
    by blast
  moreover have "\<exists>v. Unlock r1 Background w1 = (Panics nil_call, v)"
    using s1 Unlock_panics_without_watchdog [where r = r1 and ctx = Background and w = w1]
    by blast
  moreover have "\<exists>v. Unlock r2 Background w2 = (Panics nil_call, v)"
    using s2 Unlock_panics_without_watchdog [where r = r2 and ctx = Background and w = w2]
    by blast
  ultimately show ?thesis using R l1 l2 s1 s2 mode by blast
qed

text \<open>
  Claim C8, on a lock made with \<open>WithExpireSeconds(1)\<close>: \<open>Lock\<close> succeeds and the instance
  holds the key; \<open>Unlock\<close> then deletes the key on the store, and panics instead of
  returning success.
\<close>

theorem Unlock_deletes_then_panics:
  "\<exists>w1 w2. Lock lock_1s Background quiet start = (Returns (None, None), lock_1s, w1)
      \<and> holds w1 lock_1s
      \<and> Unlock lock_1s Background w1 = (Panics nil_call, w2)
      \<and> servers w2 ''10.0.0.1:6379'' (getLockKey lock_1s) = None"
  by (simp add: input_defs run_defs holds_def)

section \<open>The quorum lock on the configuration of the repository's test\<close>

lemmas quorum_defs = NewRedLock_def confs3_def test_opts_def repairRedLock_def Second_def
  Millisecond_def whole_seconds_def RedLock_Lock_def RedLock_Unlock_def Since_def cancel_all_def
  two_held_def other_holds_def holds_def

text \<open>
  Claim C2, with three nodes, lease 10 s and per-node timeout 100 ms, the key being held by
  another client on the first two nodes: only the third member acquires, so the count is 1
  and the quorum of 2 is missed. The rollback then panics in the \<open>Unlock\<close> of the first
  member: no quorum-failure error is returned, one script was sent after the three
  acquire attempts, and the third member's key stays on its node.
\<close>

theorem RedLock_Lock_rollback_panics:
  "\<exists>R R' w1. NewRedLock ''test_key'' confs3 test_opts ''7_1'' = Inr R
      \<and> RedLock_Lock R Background quiet two_held = (Panics nil_call, R', w1)
      \<and> length (sent w1) = 4
      \<and> holds w1 (locks R' ! 2)"
  by (simp add: quorum_defs input_defs run_defs)

text \<open>
  Claim C10, same configuration on free nodes: \<open>RedLock.Lock\<close> succeeds on all three
  members; \<open>RedLock.Unlock\<close> then deletes the key of the first member and panics, and the
  second and third members still hold their keys: their \<open>Unlock\<close> was never called.
\<close>

theorem RedLock_Unlock_stops_at_panic:
  "\<exists>R R' w1 w2. NewRedLock ''test_key'' confs3 test_opts ''7_1'' = Inr R
      \<and> RedLock_Lock R Background quiet start = (Returns None, R', w1)
      \<and> RedLock_Unlock R' Background w1 = (Panics nil_call, w2)
      \<and> \<not> holds w2 (locks R' ! 0) \<and> holds w2 (locks R' ! 1) \<and> holds w2 (locks R' ! 2)
      \<and> length (sent w2) = length (sent w1) + 1"
  by (simp add: quorum_defs input_defs run_defs)

section \<open>Construction of the quorum lock\<close>

lemma fold_RedLockOption_locks: "locks (fold apply_RedLockOption opts r) = locks r"
proof (induction opts arbitrary: r)
  case Nil
  show ?case by simp
next
  case (Cons o' opts)
  then show ?case by (cases o') simp_all
qed

lemma settled_timeout_positive: "0 < sint (singleNodesTimeout (settled opts))"
  by (simp add: settled_def repairRedLock_def DefaultSingleLockTimeout_def Millisecond_def)

lemma sint_product:
  fixes t :: Duration
  assumes "0 < sint t" and "int n * sint t * 10 < 2 ^ 63"
  shows "sint (word_of_nat n * t * 10) = int n * sint t * 10"
proof -
  have "word_of_nat n * t * 10 = (word_of_int (int n * sint t * 10) :: Duration)"
    by simp
  then have "sint (word_of_nat n * t * 10) = signed_take_bit 63 (int n * sint t * 10)"
    by (simp only: signed_of_int) simp
  moreover have "0 \<le> int n * sint t * 10" using assms(1) by simp
  then have "signed_take_bit 63 (int n * sint t * 10) = int n * sint t * 10"
    using assms(2) by (intro signed_take_bit_int_eq_self) simp_all
  ultimately show ?thesis by simp
qed

lemma NewRedLock_unfolded:
  "NewRedLock key' confs opts tok =
     (if length confs < 3 then Inl (New ''can not use redLock less than 3 nodes'')
      else if 0 < sint (expireDuration (settled opts))
              \<and> sint (expireDuration (settled opts))
                  < sint (word_of_nat (length confs) * singleNodesTimeout (settled opts) * 10)
        then Inl (New ''expire thresholds of single node is too long'')
        else Inr ((settled opts)\<lparr>locks :=
               map (\<lambda>conf. NewRedisLock key'
                      (NewClient (Network conf) (Address conf) (Password conf) (Opts conf))
                      [WithExpireSeconds (whole_seconds (expireDuration (settled opts)))] tok) confs\<rparr>))"
  by (simp add: NewRedLock_def settled_def Let_def)

text \<open>
  Claim C4 as the code has it. \<open>NewRedLock\<close> is a function of its arguments alone: it
  reaches no store. It returns an error for fewer than three configurations, and for a
  positive lease that is shorter than ten times the per-node timeouts of all nodes; the
  lease is compared only when it is positive. In every other case it returns a quorum lock
  with one member per configuration. The product is taken without overflow here.
\<close>

theorem NewRedLock_checks:
  assumes "int (length confs) * sint (singleNodesTimeout (settled opts)) * 10 < 2 ^ 63"
  shows "(length confs < 3 \<longrightarrow>
            NewRedLock key' confs opts tok = Inl (New ''can not use redLock less than 3 nodes''))
       \<and> (3 \<le> length confs \<and> 0 < sint (expireDuration (settled opts))
            \<and> sint (expireDuration (settled opts))
                < int (length confs) * sint (singleNodesTimeout (settled opts)) * 10 \<longrightarrow>
            NewRedLock key' confs opts tok = Inl (New ''expire thresholds of single node is too long''))
       \<and> (3 \<le> length confs
            \<and> (sint (expireDuration (settled opts)) \<le> 0
                \<or> int (length confs) * sint (singleNodesTimeout (settled opts)) * 10
                    \<le> sint (expireDuration (settled opts))) \<longrightarrow>
            (\<exists>R. NewRedLock key' confs opts tok = Inr R
                 \<and> length (locks R) = length confs
                 \<and> (\<forall>l \<in> set (locks R). key l = key' \<and> token l = tok \<and> stopDog l = None)
                 \<and> singleNodesTimeout R = singleNodesTimeout (settled opts)
                 \<and> expireDuration R = expireDuration (settled opts)))"
proof -
  have prod: "sint (word_of_nat (length confs) * singleNodesTimeout (settled opts) * 10)
                = int (length confs) * sint (singleNodesTimeout (settled opts)) * 10"
    using settled_timeout_positive assms by (rule sint_product)
  show ?thesis
  proof (intro conjI impI)
    assume "length confs < 3"
    then show "NewRedLock key' confs opts tok = Inl (New ''can not use redLock less than 3 nodes'')"
      by (simp add: NewRedLock_unfolded)
  next
    assume "3 \<le> length confs \<and> 0 < sint (expireDuration (settled opts))
            \<and> sint (expireDuration (settled opts))
                < int (length confs) * sint (singleNodesTimeout (settled opts)) * 10"
    then show "NewRedLock key' confs opts tok
                 = Inl (New ''expire thresholds of single node is too long'')"
      using prod by (simp add: NewRedLock_unfolded)
  next
    assume a: "3 \<le> length confs
            \<and> (sint (expireDuration (settled opts)) \<le> 0
                \<or> int (length confs) * sint (singleNodesTimeout (settled opts)) * 10
                    \<le> sint (expireDuration (settled opts)))"
    let ?R = "(settled opts)\<lparr>locks :=
               map (\<lambda>conf. NewRedisLock key'
                      (NewClient (Network conf) (Address conf) (Password conf) (Opts conf))
                      [WithExpireSeconds (whole_seconds (expireDuration (settled opts)))] tok) confs\<rparr>"
    from a prod have "NewRedLock key' confs opts tok = Inr ?R"
      by (auto simp: NewRedLock_unfolded)
    moreover have "length (locks ?R) = length confs" by simp
    moreover have "\<forall>l \<in> set (locks ?R). key l = key' \<and> token l = tok \<and> stopDog l = None"
      by (auto simp: NewRedisLock_fields)
    ultimately show "\<exists>R. NewRedLock key' confs opts tok = Inr R
                 \<and> length (locks R) = length confs
                 \<and> (\<forall>l \<in> set (locks R). key l = key' \<and> token l = tok \<and> stopDog l = None)
                 \<and> singleNodesTimeout R = singleNodesTimeout (settled opts)
                 \<and> expireDuration R = expireDuration (settled opts)"
      by (intro exI [of _ ?R]) simp
  qed
qed

lemma settled_test_opts:
  "singleNodesTimeout (settled test_opts) = 100000000"
  "expireDuration (settled test_opts) = 10000000000"
  "singleNodesTimeout (settled [WithRedLockExpireDuration Second]) = 50000000"
  "expireDuration (settled [WithRedLockExpireDuration Second]) = 1000000000"
  "singleNodesTimeout (settled []) = 50000000"
  "expireDuration (settled []) = 0"
  by (simp_all add: settled_def test_opts_def repairRedLock_def Second_def Millisecond_def
      DefaultSingleLockTimeout_def)

lemma length_confs3: "length confs3 = 3"
  by (simp add: confs3_def)

theorem NewRedLock_checks_witness:
  "NewRedLock ''test_key'' (take 2 confs3) test_opts ''7_1''
      = Inl (New ''can not use redLock less than 3 nodes'')
   \<and> NewRedLock ''test_key'' confs3 [WithRedLockExpireDuration Second] ''7_1''
      = Inl (New ''expire thresholds of single node is too long'')
   \<and> (\<exists>R. NewRedLock ''test_key'' confs3 test_opts ''7_1'' = Inr R \<and> length (locks R) = 3)"
proof -
  have "NewRedLock ''test_key'' (take 2 confs3) test_opts ''7_1''
      = Inl (New ''can not use redLock less than 3 nodes'')"
    using NewRedLock_checks [where confs = "take 2 confs3" and opts = test_opts
        and key' = "''test_key''" and tok = "''7_1''"]
    by (simp add: settled_test_opts confs3_def)
  moreover have "NewRedLock ''test_key'' confs3 [WithRedLockExpireDuration Second] ''7_1''
      = Inl (New ''expire thresholds of single node is too long'')"
    using NewRedLock_checks [where confs = confs3 and opts = "[WithRedLockExpireDuration Second]"
        and key' = "''test_key''" and tok = "''7_1''"]
    by (simp add: settled_test_opts confs3_def)
  moreover have "\<exists>R. NewRedLock ''test_key'' confs3 test_opts ''7_1'' = Inr R \<and> length (locks R) = 3"
    using NewRedLock_checks [where confs = confs3 and opts = test_opts
        and key' = "''test_key''" and tok = "''7_1''"]
    by (auto simp: settled_test_opts length_confs3)
  ultimately show ?thesis by blast
qed

text \<open>
  The claim as the spec states it fails when no lease duration is given: three nodes with
  the default timeout of 50 ms need 1.5 s, which exceeds the lease of 0, and the lock is
  made without error.
\<close>

theorem NewRedLock_accepts_unset_lease:
  "\<exists>R. NewRedLock ''test_key'' confs3 [] ''7_1'' = Inr R
      \<and> length (locks R) = 3
      \<and> sint (expireDuration R) < int (length confs3) * sint (singleNodesTimeout R) * 10"
  by (simp add: NewRedLock_unfolded settled_test_opts confs3_def)

section \<open>The watchdog\<close>

lemma getConn_frame:
  "cancelled (snd (getConn c ctx w)) = cancelled w"
  "fresh (snd (getConn c ctx w)) = fresh w"
  "servers (snd (getConn c ctx w)) = servers w"
  by (simp_all add: getConn_def take_call_def split: list.split option.split fault.split)

lemma conn_Do_frame:
  "cancelled (snd (conn_Do cn cmd w)) = cancelled w"
  "fresh (snd (conn_Do cn cmd w)) = fresh w"
  by (simp_all add: conn_Do_def Let_def split: prod.split option.split fault.split reply.split)

lemma Eval_frame:
  assumes "Eval c ctx src k args w = (res, w1)"
  shows "cancelled w1 = cancelled w \<and> fresh w1 = fresh w"
proof -
  obtain g wg where g: "getConn c ctx w = (g, wg)" by (cases "getConn c ctx w")
  have fg: "cancelled wg = cancelled w \<and> fresh wg = fresh w"
    using g getConn_frame(1,2) [of c ctx w] by simp
  show ?thesis
  proof (cases g)
    case (Returns got)
    show ?thesis
    proof (cases got)
      case (Inl err)
      with assms g Returns fg show ?thesis by (auto simp: Eval_def)
    next
      case (Inr cn)
      obtain x w2 where d: "conn_Do cn (EVAL src k args) wg = (x, w2)"
        by (cases "conn_Do cn (EVAL src k args) wg")
      have "cancelled w2 = cancelled wg \<and> fresh w2 = fresh wg"
        using d conn_Do_frame [of cn "EVAL src k args" wg] by simp
      moreover have "w1 = w2"
        using assms g Returns Inr d by (auto simp: Eval_def split: prod.splits)
      ultimately show ?thesis using fg by simp
    qed
  next
    case (Panics m)
    with assms g fg show ?thesis by (auto simp: Eval_def)
  next
    case Spins
    with assms g fg show ?thesis by (auto simp: Eval_def)
  qed
qed

lemma DelayExpire_frame:
  assumes "DelayExpire r ctx n w = (res, w1)"
  shows "cancelled w1 = cancelled w \<and> fresh w1 = fresh w"
proof -
  let ?args = "[S (getLockKey r), S (token r), I n]"
  obtain e we where e: "Eval (client r) ctx LuaCheckAndExpireDistributionLock 1 ?args w = (e, we)"
    by (cases "Eval (client r) ctx LuaCheckAndExpireDistributionLock 1 ?args w")
  then have "cancelled we = cancelled w \<and> fresh we = fresh w" by (rule Eval_frame)
  moreover have "w1 = we"
    using assms e by (cases e) (auto simp: DelayExpire_def split: if_splits prod.splits)
  ultimately show ?thesis by simp
qed

lemma DelayExpire_returns:
  assumes "address (pool (client r)) \<noteq> []"
  shows "\<exists>res w1. DelayExpire r ctx n w = (Returns res, w1)"
proof -
  let ?args = "[S (getLockKey r), S (token r), I n]"
  from assms Eval_cases [of "client r" ctx LuaCheckAndExpireDistributionLock 1 ?args w]
  obtain x we where "Eval (client r) ctx LuaCheckAndExpireDistributionLock 1 ?args w = (Returns x, we)"
    by blast
  then show ?thesis by (cases x) (simp add: DelayExpire_def)
qed

lemma Unlock_body_frame:
  assumes "Unlock_body r ctx w = (res, w1)"
  shows "cancelled w1 = cancelled w \<and> fresh w1 = fresh w"
proof -
  let ?args = "[S (getLockKey r), S (token r)]"
  obtain e we where e: "Eval (client r) ctx LuaCheckAndDeleteDistributionLock 1 ?args w = (e, we)"
    by (cases "Eval (client r) ctx LuaCheckAndDeleteDistributionLock 1 ?args w")
  then have "cancelled we = cancelled w \<and> fresh we = fresh w" by (rule Eval_frame)
  moreover have "w1 = we"
    using assms e by (cases e) (auto simp: Unlock_body_def split: if_splits prod.splits)
  ultimately show ?thesis by simp
qed

lemma Unlock_cancels:
  assumes "Unlock r ctx w = (res, w1)" and "stopDog r = Some h"
  shows "cancelled w1 = insert h (cancelled w)"
proof -
  obtain b wb where b: "Unlock_body r ctx w = (b, wb)" by (cases "Unlock_body r ctx w")
  then have "cancelled wb = cancelled w" by (simp add: Unlock_body_frame)
  moreover from b Unlock_body_not_Spins [of r ctx w] have "b \<noteq> Spins" by simp
  ultimately show ?thesis using assms b by (cases b) (auto simp: Unlock_def)
qed

lemma runWatchDog_exit:
  "runWatchDog r ctx out i n w = (Returns Exited, w') \<Longrightarrow> Done w' ctx"
proof (induction n arbitrary: i w)
  case 0
  then show ?case by simp
next
  case (Suc n)
  let ?w1 = "next_tick (sint (WatchDogWorkStepSeconds * Second)) out i w"
  show ?case
  proof (cases "Done ?w1 ctx")
    case True
    with Suc.prems show ?thesis by (simp add: Let_def)
  next
    case False
    obtain d w2 where d: "DelayExpire r ctx (WatchDogWorkStepSeconds + 3) ?w1 = (d, w2)"
      by (cases "DelayExpire r ctx (WatchDogWorkStepSeconds + 3) ?w1")
    show ?thesis
    proof (cases d)
      case (Returns renewed)
      with Suc.prems False d have "runWatchDog r ctx out (Suc i) n w2 = (Returns Exited, w')"
        by (simp add: Let_def)
      then show ?thesis by (rule Suc.IH)
    next
      case (Panics m)
      with Suc.prems False d show ?thesis by (simp add: Let_def)
    next
      case Spins
      with Suc.prems False d show ?thesis by (simp add: Let_def)
    qed
  qed
qed

lemma runWatchDog_keeps_running:
  assumes quiet: "\<forall>j v. cancelled (acts out j v) = cancelled v"
    and never: "\<forall>t. \<not> ctx_Done (cancelled w) t ctx"
    and addr: "address (pool (client r)) \<noteq> []"
  shows "\<exists>w'. runWatchDog r ctx out i n w = (Returns Running, w')"
  using never
proof (induction n arbitrary: i w)
  case 0
  show ?case by simp
next
  case (Suc n)
  let ?w1 = "next_tick (sint (WatchDogWorkStepSeconds * Second)) out i w"
  have c1: "cancelled ?w1 = cancelled w" using quiet by (simp add: next_tick_def)
  with Suc.prems have live: "\<not> Done ?w1 ctx" by (simp add: Done_def)
  from addr obtain renewed w2
    where d: "DelayExpire r ctx (WatchDogWorkStepSeconds + 3) ?w1 = (Returns renewed, w2)"
    using DelayExpire_returns by blast
  then have "cancelled w2 = cancelled ?w1" by (simp add: DelayExpire_frame)
  with c1 Suc.prems have "\<forall>t. \<not> ctx_Done (cancelled w2) t ctx" by simp
  then obtain w' where "runWatchDog r ctx out (Suc i) n w2 = (Returns Running, w')"
    using Suc.IH by blast
  with live d show ?case by (simp add: Let_def)
qed

text \<open>
  Claim C9. When \<open>runWatchDog\<close> has exited, its context was done at the tick at which it
  left. And as long as nobody cancels and the context has no deadline, it is still in its
  loop after any number of ticks, whatever the store holds and whatever each renewal
  returned: a lost ownership and a failure of the store leave it running.
\<close>

theorem runWatchDog_stops_only_on_cancel:
  "(runWatchDog r ctx out i n w = (Returns Exited, w') \<longrightarrow> Done w' ctx)
   \<and> ((\<forall>j v. cancelled (acts out j v) = cancelled v) \<and> (\<forall>t. \<not> ctx_Done (cancelled w) t ctx)
        \<and> address (pool (client r)) \<noteq> []
      \<longrightarrow> (\<exists>w''. runWatchDog r ctx out i n w = (Returns Running, w'')))"
proof (intro conjI impI)
  assume "runWatchDog r ctx out i n w = (Returns Exited, w')"
  then show "Done w' ctx" by (rule runWatchDog_exit)
next
  assume "(\<forall>j v. cancelled (acts out j v) = cancelled v) \<and> (\<forall>t. \<not> ctx_Done (cancelled w) t ctx)
        \<and> address (pool (client r)) \<noteq> []"
  then show "\<exists>w''. runWatchDog r ctx out i n w = (Returns Running, w'')"
    using runWatchDog_keeps_running by blast
qed

theorem runWatchDog_stops_only_on_cancel_witness:
  "(\<exists>w1. DelayExpire lock_dog (WithCancel 1 Background) 6 broken
            = (Returns (Some (New ''can not expire lock without ownership of lock'')), w1))
   \<and> (\<exists>w''. runWatchDog lock_dog (WithCancel 1 Background) quiet 0 4 broken = (Returns Running, w''))
   \<and> (\<exists>w'. runWatchDog lock_dog (WithCancel 1 Background) quiet 0 4 (broken\<lparr>cancelled := {1}\<rparr>)
              = (Returns Exited, w') \<and> Done w' (WithCancel 1 Background))"
proof -
  have fails: "\<exists>w1. DelayExpire lock_dog (WithCancel 1 Background) 6 broken
            = (Returns (Some (New ''can not expire lock without ownership of lock'')), w1)"
    by (simp add: lock_dog_def broken_def input_defs run_defs)
  have "(\<forall>j v. cancelled (acts quiet j v) = cancelled v)
        \<and> (\<forall>t. \<not> ctx_Done (cancelled broken) t (WithCancel 1 Background))
        \<and> address (pool (client lock_dog)) \<noteq> []"
    by (simp add: lock_dog_def broken_def input_defs NewRedisLock_fields)
  then have runs: "\<exists>w''. runWatchDog lock_dog (WithCancel 1 Background) quiet 0 4 broken
      = (Returns Running, w'')"
    using runWatchDog_stops_only_on_cancel [where r = lock_dog and ctx = "WithCancel 1 Background"
        and out = quiet and i = 0 and n = 4 and w = broken]
    by blast
  obtain w' where stop: "runWatchDog lock_dog (WithCancel 1 Background) quiet 0 4
      (broken\<lparr>cancelled := {1}\<rparr>) = (Returns Exited, w')"
    by (simp add: numeral_nat Done_def next_tick_def quiet_def)
  then have "Done w' (WithCancel 1 Background)"
    using runWatchDog_stops_only_on_cancel [where r = lock_dog and ctx = "WithCancel 1 Background"
        and out = quiet and i = 0 and n = 4 and w = "broken\<lparr>cancelled := {1}\<rparr>" and w' = w']
    by blast
  with fails runs stop show ?thesis by blast
qed

subsection \<open>What cancels the watchdog\<close>

lemma Lock_starts_dog:
  assumes "Lock r ctx out w = (Returns (err, Some d), r', w')"
  shows "\<exists>h. stopDog r' = Some h \<and> d = WithCancel h ctx \<and> runningDog r' = 1 \<and> err = None"
proof -
  obtain res named w1 where b: "Lock_body r ctx out w = ((res, named), w1)"
    by (cases "Lock_body r ctx out w") auto
  show ?thesis
  proof (cases res)
    case (Returns x)
    with b have n: "named = x" by (simp add: Lock_body_named_result)
    show ?thesis
    proof (cases named)
      case None
      with assms b Returns n show ?thesis
        by (auto simp: Lock_def watchDog_def split: if_splits)
    next
      case (Some e)
      with assms b Returns show ?thesis by (simp add: Lock_def)
    qed
  next
    case (Panics m)
    with assms b show ?thesis
      by (cases named) (auto simp: Lock_def watchDog_def split: if_splits)
  next
    case Spins
    with assms b show ?thesis by (cases named) (simp_all add: Lock_def)
  qed
qed

text \<open>
  Claim C3 as the code has it. The watchdog started by a \<open>Lock\<close> runs under a child, made
  by \<open>context.WithCancel\<close>, of the context passed to that \<open>Lock\<close>, and \<open>stopDog\<close> is the
  child's cancel function. So the watchdog's context is done exactly when \<open>stopDog\<close> was
  called or the context of the \<open>Lock\<close> call is done; \<open>Unlock\<close> on the instance calls
  \<open>stopDog\<close> and nothing else, and the renewals of the watchdog cancel nothing.
\<close>

theorem watchdog_context_is_child:
  assumes "Lock r ctx out w = (Returns (err, Some d), r', w')"
  shows "\<exists>h. stopDog r' = Some h \<and> d = WithCancel h ctx
           \<and> (\<forall>v. Done v d = (h \<in> cancelled v \<or> Done v ctx))
           \<and> (\<forall>c v res v'. Unlock r' c v = (res, v') \<longrightarrow> cancelled v' = insert h (cancelled v))
           \<and> (\<forall>c n v res v'. DelayExpire r' c n v = (res, v') \<longrightarrow> cancelled v' = cancelled v)"
proof -
  from assms obtain h where h: "stopDog r' = Some h" "d = WithCancel h ctx"
    using Lock_starts_dog by blast
  have "\<forall>v. Done v d = (h \<in> cancelled v \<or> Done v ctx)"
    using h(2) by (simp add: Done_def)
  moreover have "\<forall>c v res v'. Unlock r' c v = (res, v') \<longrightarrow> cancelled v' = insert h (cancelled v)"
    using h(1) Unlock_cancels by blast
  moreover have "\<forall>c n v res v'. DelayExpire r' c n v = (res, v') \<longrightarrow> cancelled v' = cancelled v"
    using DelayExpire_frame by blast
  ultimately show ?thesis using h by blast
qed

theorem watchdog_context_is_child_witness:
  "\<exists>r' w' res v' res2 v2. Lock lock_dog (WithCancel 0 Background) quiet start1
        = (Returns (None, Some (WithCancel 1 (WithCancel 0 Background))), r', w')
      \<and> stopDog r' = Some 1
      \<and> \<not> Done w' (WithCancel 1 (WithCancel 0 Background))
      \<and> DelayExpire r' (WithCancel 1 (WithCancel 0 Background)) 6 w' = (res2, v2)
      \<and> cancelled v2 = {}
      \<and> Unlock r' Background w' = (res, v')
      \<and> Done v' (WithCancel 1 (WithCancel 0 Background))"
proof -
  obtain r' w' where l: "Lock lock_dog (WithCancel 0 Background) quiet start1
        = (Returns (None, Some (WithCancel 1 (WithCancel 0 Background))), r', w')"
      and s: "stopDog r' = Some 1" and c: "cancelled w' = {}"
    by (simp add: lock_dog_def start1_def input_defs run_defs)
  obtain res v' where u: "Unlock r' Background w' = (res, v')"
    by (cases "Unlock r' Background w'")
  obtain res2 v2 where d: "DelayExpire r' (WithCancel 1 (WithCancel 0 Background)) 6 w' = (res2, v2)"
    by (cases "DelayExpire r' (WithCancel 1 (WithCancel 0 Background)) 6 w'")
  from watchdog_context_is_child [OF l] s u d c
  have "\<not> Done w' (WithCancel 1 (WithCancel 0 Background))"
    and "Done v' (WithCancel 1 (WithCancel 0 Background))"
    and "cancelled v2 = {}"
    by (auto simp: Done_def)
  with l s u d show ?thesis by blast
qed

text \<open>
  The claim as the spec states it fails: after a \<open>Lock\<close> under a cancellable context, the
  caller cancels that context (handle 0) and never calls \<open>Unlock\<close> (handle 1, the
  \<open>stopDog\<close> of the instance, is not cancelled); the watchdog exits at its next tick.
\<close>

theorem watchdog_stopped_by_Lock_context:
  "\<exists>d r' w1 w2. Lock lock_dog (WithCancel 0 Background) quiet start1 = (Returns (None, Some d), r', w1)
      \<and> stopDog r' = Some 1
      \<and> runWatchDog r' d quiet 0 1 (w1\<lparr>cancelled := {0}\<rparr>) = (Returns Exited, w2)
      \<and> 1 \<notin> cancelled w2"
  by (simp add: lock_dog_def start1_def input_defs run_defs Done_def next_tick_def)

section \<open>Acquisition: the first attempt and the poll loop\<close>

declare poll.simps [simp del]













section \<open>Mutual exclusion on one key\<close>

lemma getConn_Inr:
  assumes "getConn c ctx w = (Returns (Inr cn), w1)"
  shows "peer cn = address (pool c) \<and> servers w1 = servers w \<and> clock w1 = clock w
           \<and> (\<forall>e. fault (fate cn) \<noteq> Some (ConnFails e))"
  using assms take_call_frame(1,2) [of w]
  by (auto simp: getConn_def split: if_splits prod.splits option.splits fault.splits)

lemma getConn_Inl:
  assumes "getConn c ctx w = (Returns (Inl e), w1)"
  shows "servers w1 = servers w"
  using assms getConn_frame(3) [of c ctx w] by simp

lemma conn_Do_servers:
  "servers (snd (conn_Do cn cmd w)) = servers w
   \<or> servers (snd (conn_Do cn cmd w))
        = (servers w)(peer cn := snd (exec_command (clock w) (servers w (peer cn)) cmd))"
  by (simp add: conn_Do_def Let_def split: prod.split option.split fault.split reply.split)

lemma conn_Do_no_error:
  assumes "conn_Do cn cmd w = ((rep, None), w1)"
  shows "exec_command (clock w) (servers w (peer cn)) cmd = (rep, servers w1 (peer cn))
           \<and> (\<forall>m. rep \<noteq> Err m)"
proof -
  obtain rep' d where x: "exec_command (clock w) (servers w (peer cn)) cmd = (rep', d)"
    by (cases "exec_command (clock w) (servers w (peer cn)) cmd")
  show ?thesis
  proof (cases "fault (fate cn)")
    case None
    with assms x show ?thesis
      by (cases rep') (auto simp: conn_Do_def Let_def)
  next
    case (Some f)
    with assms x show ?thesis
      by (cases f; cases rep') (auto simp: conn_Do_def Let_def)
  qed
qed

lemma set_ex_nx_OK:
  assumes "redis_set_ex_nx now d k v ex = (Str s, d')"
  shows "redis_get now d k = None \<and> d' k = Some (v, now + sint ex * 1000000000)"
  using assms by (auto simp: redis_set_ex_nx_def split: if_splits)

lemma SetNX_success:
  assumes "SetNX c ctx k v ex w = (Returns (n, None), w')"
  shows "redis_get (clock w) (servers w (address (pool c))) k = None
         \<and> servers w' (address (pool c)) k = Some (v, clock w + sint ex * 1000000000)"
proof -
  from assms have ne: "\<not> (k = [] \<or> v = [])" by (auto simp: SetNX_def)
  obtain g wg where g: "getConn c ctx w = (g, wg)" by (cases "getConn c ctx w")
  show ?thesis
  proof (cases g)
    case (Returns got)
    show ?thesis
    proof (cases got)
      case (Inl err)
      with assms ne g Returns show ?thesis by (auto simp: SetNX_def)
    next
      case (Inr cn)
      with g Returns have cn: "peer cn = address (pool c)" "servers wg = servers w"
          "clock wg = clock w"
        using getConn_Inr by blast+
      obtain rep err w2 where d: "conn_Do cn (SET_EX_NX k v ex) wg = ((rep, err), w2)"
        by (cases "conn_Do cn (SET_EX_NX k v ex) wg") auto
      with assms ne g Returns Inr have e: "err = None" and w2: "w2 = w'"
        by (auto simp: SetNX_def ext_def split: if_splits prod.splits)
      from d e have x: "redis_set_ex_nx (clock wg) (servers wg (peer cn)) k v ex
          = (rep, servers w2 (peer cn))" and noerr: "\<forall>m. rep \<noteq> Err m"
        using conn_Do_no_error by fastforce+
      have "\<exists>s. rep = Str s"
      proof (cases rep)
        case Nil
        with assms ne g Returns Inr d e show ?thesis by (simp add: SetNX_def ext_def)
      next
        case (Str s)
        then show ?thesis by simp
      next
        case (Int64 m)
        with x show ?thesis by (auto simp: redis_set_ex_nx_def split: if_splits)
      next
        case (GoInt m)
        with x show ?thesis by (auto simp: redis_set_ex_nx_def split: if_splits)
      next
        case (Err m)
        with noerr show ?thesis by simp
      qed
      then obtain s where "rep = Str s" by blast
      with x cn w2 show ?thesis using set_ex_nx_OK by fastforce
    qed
  next
    case (Panics m)
    with assms ne g show ?thesis by (auto simp: SetNX_def)
  next
    case Spins
    with assms ne g show ?thesis by (auto simp: SetNX_def)
  qed
qed

text \<open>A command sent under another token leaves a live record as it is.\<close>

lemma exec_command_other_token:
  assumes "redis_get now d k = Some t" and "t \<noteq> t'"
  shows "snd (exec_command now d (SET_EX_NX k t' ex)) = d"
    and "snd (exec_command now d (EVAL LuaCheckAndDeleteDistributionLock 1 [S k, S t'])) = d"
    and "snd (exec_command now d (EVAL LuaCheckAndExpireDistributionLock 1 [S k, S t', I n])) = d"
  using assms by (simp_all add: redis_set_ex_nx_def Let_def)

lemma conn_Do_keeps:
  assumes "snd (exec_command (clock w) (servers w (peer cn)) cmd) = servers w (peer cn)"
  shows "servers (snd (conn_Do cn cmd w)) = servers w"
  using conn_Do_servers [of cn cmd w] assms by auto

lemma SetNX_keeps:
  assumes "redis_get (clock w) (servers w (address (pool c))) k = Some t" and "t \<noteq> v"
  shows "servers (snd (SetNX c ctx k v ex w)) = servers w"
proof (cases "k = [] \<or> v = []")
  case True
  then show ?thesis by (auto simp: SetNX_def)
next
  case False
  obtain g wg where g: "getConn c ctx w = (g, wg)" by (cases "getConn c ctx w")
  then have sg: "servers wg = servers w" using getConn_frame(3) [of c ctx w] by simp
  show ?thesis
  proof (cases g)
    case (Returns got)
    show ?thesis
    proof (cases got)
      case (Inl err)
      with False g Returns sg show ?thesis by (simp add: SetNX_def)
    next
      case (Inr cn)
      with g Returns have cn: "peer cn = address (pool c)" "clock wg = clock w"
        using getConn_Inr by blast+
      obtain x w2 where d: "conn_Do cn (SET_EX_NX k v ex) wg = (x, w2)"
        by (cases "conn_Do cn (SET_EX_NX k v ex) wg")
      have "servers (snd (conn_Do cn (SET_EX_NX k v ex) wg)) = servers wg"
        using assms cn sg exec_command_other_token(1) [of "clock w" "servers w (address (pool c))" k t v ex]
        by (intro conn_Do_keeps) simp
      with d sg have "servers w2 = servers w" by simp
      moreover have "snd (SetNX c ctx k v ex w) = w2"
        using False g Returns Inr d by (auto simp: SetNX_def split: prod.splits)
      ultimately show ?thesis by simp
    qed
  next
    case (Panics m)
    with False g sg show ?thesis by (simp add: SetNX_def)
  next
    case Spins
    with False g sg show ?thesis by (simp add: SetNX_def)
  qed
qed

lemma Eval_keeps:
  assumes "snd (exec_command (clock w) (servers w (address (pool c))) (EVAL src k args))
             = servers w (address (pool c))"
  shows "servers (snd (Eval c ctx src k args w)) = servers w"
proof -
  obtain g wg where g: "getConn c ctx w = (g, wg)" by (cases "getConn c ctx w")
  then have sg: "servers wg = servers w" using getConn_frame(3) [of c ctx w] by simp
  show ?thesis
  proof (cases g)
    case (Returns got)
    show ?thesis
    proof (cases got)
      case (Inl err)
      with g Returns sg show ?thesis by (simp add: Eval_def)
    next
      case (Inr cn)
      with g Returns have cn: "peer cn = address (pool c)" "clock wg = clock w"
        using getConn_Inr by blast+
      obtain x w2 where d: "conn_Do cn (EVAL src k args) wg = (x, w2)"
        by (cases "conn_Do cn (EVAL src k args) wg")
      have "servers (snd (conn_Do cn (EVAL src k args) wg)) = servers wg"
        using assms cn sg by (intro conn_Do_keeps) simp
      with d sg have "servers w2 = servers w" by simp
      moreover have "snd (Eval c ctx src k args w) = w2"
        using g Returns Inr d by (auto simp: Eval_def split: prod.splits)
      ultimately show ?thesis by simp
    qed
  next
    case (Panics m)
    with g sg show ?thesis by (simp add: Eval_def)
  next
    case Spins
    with g sg show ?thesis by (simp add: Eval_def)
  qed
qed

lemma bind_snd_servers:
  assumes "\<And>x s. servers (snd (f x s)) = servers s"
  shows "servers (snd (bind m f)) = servers (snd m)"
proof -
  obtain res s where m: "m = (res, s)" by (cases m)
  show ?thesis by (cases res) (simp_all add: m assms)
qed

lemma tryLock_servers: "servers (snd (tryLock r ctx w))
    = servers (snd (SetNX (client r) ctx (getLockKey r) (token r) (expireSeconds r) w))"
  unfolding tryLock_def by (rule bind_snd_servers) (simp split: prod.split)

lemma DelayExpire_servers: "servers (snd (DelayExpire r ctx n w))
    = servers (snd (Eval (client r) ctx LuaCheckAndExpireDistributionLock 1
         [S (getLockKey r), S (token r), I n] w))"
  unfolding DelayExpire_def by (rule bind_snd_servers) (simp split: prod.split)

lemma Unlock_servers: "servers (snd (Unlock r ctx w))
    = servers (snd (Eval (client r) ctx LuaCheckAndDeleteDistributionLock 1
         [S (getLockKey r), S (token r)] w))"
proof -
  have b: "servers (snd (Unlock_body r ctx w))
      = servers (snd (Eval (client r) ctx LuaCheckAndDeleteDistributionLock 1
           [S (getLockKey r), S (token r)] w))"
    unfolding Unlock_body_def by (rule bind_snd_servers) (simp split: prod.split)
  obtain res w1 where u: "Unlock_body r ctx w = (res, w1)" by (cases "Unlock_body r ctx w")
  have "servers (snd (Unlock r ctx w)) = servers w1"
    using u by (cases res) (auto simp: Unlock_def split: option.splits)
  with b u show ?thesis by simp
qed

text \<open>
  Claim C1. Two instances on the same server and key with different tokens never hold the
  key at the same instant (an instance holds the key while the record stored under the
  prefixed key is unexpired and equals its token). An attempt of one of them succeeds
  only when no unexpired record is stored under the key, so not while the other holds it,
  and stores its own token; and while one holds the key, no acquire attempt, release or
  renewal of the other changes the store, and no acquire attempt of the other succeeds.
\<close>

theorem one_holder_per_key:
  assumes "address (pool (client r1)) = address (pool (client r2))" and "key r1 = key r2"
    and "token r1 \<noteq> token r2"
  shows "\<not> (holds w r1 \<and> holds w r2)
       \<and> (tryLock r2 ctx w = (Returns None, w') \<longrightarrow>
            redis_get (clock w) (servers w (address (pool (client r2)))) (getLockKey r2) = None
            \<and> \<not> holds w r1
            \<and> servers w' (address (pool (client r2))) (getLockKey r2)
                = Some (token r2, clock w + sint (expireSeconds r2) * 1000000000))
       \<and> (holds w r1 \<longrightarrow>
            servers (snd (tryLock r2 ctx w)) = servers w
            \<and> fst (tryLock r2 ctx w) \<noteq> Returns None
            \<and> servers (snd (Unlock r2 ctx w)) = servers w
            \<and> servers (snd (DelayExpire r2 ctx n w)) = servers w)"
proof (intro conjI impI)
  have k: "getLockKey r1 = getLockKey r2" using assms(2) by (simp add: getLockKey_def)
  show "\<not> (holds w r1 \<and> holds w r2)"
    using assms(1,3) k by (auto simp: holds_def)
  {
    assume t: "tryLock r2 ctx w = (Returns None, w')"
    obtain s ws where s: "SetNX (client r2) ctx (getLockKey r2) (token r2) (expireSeconds r2) w = (s, ws)"
      by (cases "SetNX (client r2) ctx (getLockKey r2) (token r2) (expireSeconds r2) w")
    with t obtain m where "s = Returns (m, None)" and "ws = w'"
      by (cases s) (auto simp: tryLock_def split: if_splits prod.splits)
    with s have free: "redis_get (clock w) (servers w (address (pool (client r2)))) (getLockKey r2) = None
        \<and> servers w' (address (pool (client r2))) (getLockKey r2)
            = Some (token r2, clock w + sint (expireSeconds r2) * 1000000000)"
      using SetNX_success by blast
    then show "redis_get (clock w) (servers w (address (pool (client r2)))) (getLockKey r2) = None"
      and "servers w' (address (pool (client r2))) (getLockKey r2)
            = Some (token r2, clock w + sint (expireSeconds r2) * 1000000000)"
      by simp_all
    from free show "\<not> holds w r1" using assms(1) k by (simp add: holds_def)
  }
  {
    assume h: "holds w r1"
    then have live: "redis_get (clock w) (servers w (address (pool (client r2)))) (getLockKey r2)
        = Some (token r1)"
      using assms(1) k by (simp add: holds_def)
    have "servers (snd (SetNX (client r2) ctx (getLockKey r2) (token r2) (expireSeconds r2) w))
        = servers w"
      using live assms(3) by (rule SetNX_keeps)
    then show "servers (snd (tryLock r2 ctx w)) = servers w" by (simp add: tryLock_servers)
    show "fst (tryLock r2 ctx w) \<noteq> Returns None"
    proof
      assume "fst (tryLock r2 ctx w) = Returns None"
      then have "tryLock r2 ctx w = (Returns None, snd (tryLock r2 ctx w))"
        by (cases "tryLock r2 ctx w") simp
      then obtain m ws where
        "SetNX (client r2) ctx (getLockKey r2) (token r2) (expireSeconds r2) w = (Returns (m, None), ws)"
        by (cases "SetNX (client r2) ctx (getLockKey r2) (token r2) (expireSeconds r2) w"
            rule: prod.exhaust [case_names Pair], cases "fst (SetNX (client r2) ctx (getLockKey r2) (token r2) (expireSeconds r2) w)")
          (auto simp: tryLock_def split: if_splits prod.splits)
      then have "redis_get (clock w) (servers w (address (pool (client r2)))) (getLockKey r2) = None"
        using SetNX_success by blast
      with live show False by simp
    qed
    show "servers (snd (Unlock r2 ctx w)) = servers w"
      unfolding Unlock_servers
      using exec_command_other_token(2) [OF live assms(3)] by (intro Eval_keeps) simp
    show "servers (snd (DelayExpire r2 ctx n w)) = servers w"
      unfolding DelayExpire_servers
      using exec_command_other_token(3) [OF live assms(3)] by (intro Eval_keeps) simp
  }
qed

theorem one_holder_per_key_witness:
  "(\<exists>w'. tryLock lock_a Background start = (Returns None, w')
       \<and> servers w' ''10.0.0.1:6379'' (getLockKey lock_a) = Some (''7_2'', 10000000000)
       \<and> \<not> holds start lock_1s)
   \<and> holds held lock_1s \<and> \<not> holds held lock_a
   \<and> servers (snd (tryLock lock_a Background held)) = servers held
   \<and> fst (tryLock lock_a Background held) \<noteq> Returns None
   \<and> servers (snd (Unlock lock_a Background held)) = servers held
   \<and> servers (snd (DelayExpire lock_a Background 6 held)) = servers held"
proof -
  have same: "address (pool (client lock_1s)) = address (pool (client lock_a))"
      "key lock_1s = key lock_a" "token lock_1s \<noteq> token lock_a"
    by (simp_all add: input_defs)
  have addr: "address (pool (client lock_a)) = ''10.0.0.1:6379''"
    and ttl: "sint (expireSeconds lock_a) = 10" and tok: "token lock_a = ''7_2''"
    by (simp_all add: input_defs)
  obtain w' where t: "tryLock lock_a Background start = (Returns None, w')"
    by (simp add: input_defs run_defs)
  have h: "holds held lock_1s" by (simp add: holds_def input_defs redis_get_def)
  note thm1 = one_holder_per_key [OF same, where w = start and ctx = Background and w' = w']
  note thm2 = one_holder_per_key [OF same, where w = held and ctx = Background and n = 6]
  from thm1 t addr ttl tok
  have "servers w' ''10.0.0.1:6379'' (getLockKey lock_a) = Some (''7_2'', 10000000000)
      \<and> \<not> holds start lock_1s"
    by (simp add: start_def)
  moreover from thm2 h have "\<not> holds held lock_a
      \<and> servers (snd (tryLock lock_a Background held)) = servers held
      \<and> fst (tryLock lock_a Background held) \<noteq> Returns None
      \<and> servers (snd (Unlock lock_a Background held)) = servers held
      \<and> servers (snd (DelayExpire lock_a Background 6 held)) = servers held"
    by blast
  ultimately show ?thesis using t h by blast
qed

section \<open>Release where every cancel function is set\<close>

text \<open>
  The properties of release that the nil \<open>stopDog\<close> breaks hold for instances whose
  watchdog was started.
\<close>

lemma Eval_healthy:
  assumes "address (pool c) \<noteq> []" and "fault (fst (take_call w)) = None"
  shows "\<exists>w'. Eval c ctx src k args w =
           (Returns (case fst (exec_command (clock w) (servers w (address (pool c))) (EVAL src k args)) of
                       Err m \<Rightarrow> (Nil, Some (Ext (Failure m)))
                     | rep \<Rightarrow> (rep, None)), w')
         \<and> servers w' = (servers w)(address (pool c) :=
               snd (exec_command (clock w) (servers w (address (pool c))) (EVAL src k args)))
         \<and> clock w \<le> clock w' \<and> cancelled w' = cancelled w"
proof -
  obtain e w0 where t: "take_call w = (e, w0)" by (cases "take_call w")
  with assms(2) have f: "fault e = None" by simp
  from t take_call_frame [of w] have same: "servers w0 = servers w" "clock w0 = clock w"
      "cancelled w0 = cancelled w"
    by simp_all
  have g: "getConn c ctx w = (Returns (Inr \<lparr>peer = address (pool c), fate = e\<rparr>), w0)"
    using assms(1) t f by (simp add: getConn_def)
  obtain rep d where x: "exec_command (clock w) (servers w (address (pool c))) (EVAL src k args) = (rep, d)"
    by (cases "exec_command (clock w) (servers w (address (pool c))) (EVAL src k args)")
  show ?thesis
    using g f x same
    by (cases rep) (simp_all add: Eval_def conn_Do_def ext_def Let_def del: exec_command.simps)
qed

lemma delete_script:
  "exec_command now d (EVAL LuaCheckAndDeleteDistributionLock 1 [S k, S t]) =
     (if redis_get now d k = Some t then (Int64 1, d(k := None)) else (Int64 0, d))"
  by (simp add: Let_def redis_del_def)

lemma redis_get_later:
  assumes "redis_get now d k \<noteq> Some t" and "now \<le> now'"
  shows "redis_get now' d k \<noteq> Some t"
  using assms by (auto simp: redis_get_def split: option.splits prod.splits if_splits)

lemma Unlock_with_stopDog:
  assumes "stopDog r = Some h" and "address (pool (client r)) \<noteq> []"
    and "fault (fst (take_call w)) = None"
  shows "\<exists>w'. Unlock r ctx w =
            (Returns (if holds w r then None
                      else Some (New ''can not unlock without ownership of lock'')), w')
          \<and> \<not> holds w' r \<and> h \<in> cancelled w'"
proof -
  let ?a = "address (pool (client r))"
  let ?cmd = "EVAL LuaCheckAndDeleteDistributionLock 1 [S (getLockKey r), S (token r)]"
  from Eval_healthy [OF assms(2,3), of ctx LuaCheckAndDeleteDistributionLock 1
      "[S (getLockKey r), S (token r)]"]
  obtain w1 where e: "Eval (client r) ctx LuaCheckAndDeleteDistributionLock 1
        [S (getLockKey r), S (token r)] w =
        (Returns (case fst (exec_command (clock w) (servers w ?a) ?cmd) of
                    Err m \<Rightarrow> (Nil, Some (Ext (Failure m))) | rep \<Rightarrow> (rep, None)), w1)"
      and s: "servers w1 = (servers w)(?a := snd (exec_command (clock w) (servers w ?a) ?cmd))"
      and c: "clock w \<le> clock w1"
    by blast
  show ?thesis
  proof (cases "holds w r")
    case True
    then have x: "exec_command (clock w) (servers w ?a) ?cmd
        = (Int64 1, (servers w ?a)(getLockKey r := None))"
      by (simp only: delete_script) (simp add: holds_def)
    with e have "Unlock_body r ctx w = (Returns None, w1)"
      by (simp add: Unlock_body_def del: exec_command.simps)
    moreover from s x have "\<not> holds w1 r"
      by (simp add: holds_def redis_get_def del: exec_command.simps)
    ultimately show ?thesis using True assms(1) by (simp add: Unlock_def holds_def)
  next
    case False
    then have x: "exec_command (clock w) (servers w ?a) ?cmd = (Int64 0, servers w ?a)"
      by (simp only: delete_script) (simp add: holds_def)
    with e have "Unlock_body r ctx w
        = (Returns (Some (New ''can not unlock without ownership of lock'')), w1)"
      by (simp add: Unlock_body_def del: exec_command.simps)
    moreover from s x have "servers w1 ?a = servers w ?a" by (simp del: exec_command.simps)
    with False c have "\<not> holds w1 r"
      using redis_get_later [of "clock w" "servers w ?a" "getLockKey r" "token r" "clock w1"]
      by (simp add: holds_def)
    ultimately show ?thesis using False assms(1) by (simp add: Unlock_def holds_def)
  qed
qed

lemma Unlock_returns_with_stopDog:
  assumes "stopDog l \<noteq> None" and "address (pool (client l)) \<noteq> []"
  shows "\<exists>res w1. Unlock l ctx w = (Returns res, w1)"
proof -
  from assms(2) obtain x we where "Eval (client l) ctx LuaCheckAndDeleteDistributionLock 1
      [S (getLockKey l), S (token l)] w = (Returns x, we)"
    using Eval_cases [of "client l" ctx LuaCheckAndDeleteDistributionLock 1
        "[S (getLockKey l), S (token l)]" w]
    by blast
  then have "\<exists>res. Unlock_body l ctx w = (Returns res, we)"
    by (cases x) (simp add: Unlock_body_def)
  then obtain res where "Unlock_body l ctx w = (Returns res, we)" by blast
  with assms(1) show ?thesis by (auto simp: Unlock_def)
qed

lemma unlock_each_attempts_all:
  assumes "\<forall>l \<in> set ls. stopDog l \<noteq> None \<and> address (pool (client l)) \<noteq> []"
  shows "unlock_each ls ctx err w
           = (Returns (last_error err (fst (unlock_in_turn ls ctx w))), snd (unlock_in_turn ls ctx w))
         \<and> length (fst (unlock_in_turn ls ctx w)) = length ls"
  using assms
proof (induction ls arbitrary: err w)
  case Nil
  show ?case by simp
next
  case (Cons l ls)
  then obtain res w1 where u: "Unlock l ctx w = (Returns res, w1)"
    using Unlock_returns_with_stopDog [of l ctx w] by auto
  obtain rs w2 where r: "unlock_in_turn ls ctx w1 = (rs, w2)" by (cases "unlock_in_turn ls ctx w1")
  from Cons.prems have rest: "\<forall>l \<in> set ls. stopDog l \<noteq> None \<and> address (pool (client l)) \<noteq> []"
    by simp
  show ?case
  proof (cases res)
    case None
    with u r Cons.IH [OF rest, of err w1] show ?thesis by simp
  next
    case (Some e)
    with u r Cons.IH [OF rest, of "Some e" w1] show ?thesis by simp
  qed
qed

text \<open>
  The count of \<open>RedLock.Lock\<close>: when the loop over the members has returned a count, the
  call succeeds exactly when the count reaches the majority; below it, the rollback runs.
\<close>

lemma lock_each_length:
  "lock_each ls ctx t out cnt hs w = (res, hs', ls', w') \<Longrightarrow> length ls' = length ls"
proof (induction ls arbitrary: cnt hs w res hs' ls' w')
  case Nil
  then show ?case by simp
next
  case (Cons l ls)
  let ?c = "WithTimeout (fresh w) (clock w + sint t) ctx"
  obtain x l' w1 where k: "Lock l ?c out (w\<lparr>fresh := Suc (fresh w)\<rparr>) = (x, l', w1)"
    by (cases "Lock l ?c out (w\<lparr>fresh := Suc (fresh w)\<rparr>)")
  show ?case
  proof (cases x)
    case (Returns y)
    obtain err dog where y: "y = (err, dog)" by (cases y)
    let ?cnt = "if err = None \<and> Since (clock w) w1 \<le> sint t then Suc cnt else cnt"
    obtain a b c d where n: "lock_each ls ctx t out ?cnt (fresh w # hs) w1 = (a, b, c, d)"
      by (cases "lock_each ls ctx t out ?cnt (fresh w # hs) w1")
    then have "length c = length ls" by (rule Cons.IH)
    with Cons.prems k Returns y n show ?thesis by (auto simp: Let_def)
  next
    case (Panics m)
    with Cons.prems k show ?thesis by (auto simp: Let_def)
  next
    case Spins
    with Cons.prems k show ?thesis by (auto simp: Let_def)
  qed
qed

lemma RedLock_Lock_majority:
  assumes "lock_each (locks r) ctx (singleNodesTimeout r) out 0 [] w = (Returns successCnt, hs, ls, w1)"
  shows "(length (locks r) div 2 + 1 \<le> successCnt \<longrightarrow>
            RedLock_Lock r ctx out w = (Returns None, r\<lparr>locks := ls\<rparr>, cancel_all hs w1))
       \<and> (successCnt < length (locks r) div 2 + 1 \<longrightarrow>
            fst (RedLock_Lock r ctx out w) \<noteq> Returns None
            \<and> sent (snd (snd (RedLock_Lock r ctx out w)))
                = sent (snd (RedLock_Unlock (r\<lparr>locks := ls\<rparr>) ctx w1)))"
proof (intro conjI impI)
  assume "length (locks r) div 2 + 1 \<le> successCnt"
  with assms show "RedLock_Lock r ctx out w = (Returns None, r\<lparr>locks := ls\<rparr>, cancel_all hs w1)"
    by (simp add: RedLock_Lock_def)
next
  assume less: "successCnt < length (locks r) div 2 + 1"
  obtain u w2 where u: "RedLock_Unlock (r\<lparr>locks := ls\<rparr>) ctx w1 = (u, w2)"
    by (cases "RedLock_Unlock (r\<lparr>locks := ls\<rparr>) ctx w1")
  with assms less show "fst (RedLock_Lock r ctx out w) \<noteq> Returns None"
    by (cases u) (simp_all add: RedLock_Lock_def)
  from assms less u show "sent (snd (snd (RedLock_Lock r ctx out w)))
      = sent (snd (RedLock_Unlock (r\<lparr>locks := ls\<rparr>) ctx w1))"
    by (cases u) (simp_all add: RedLock_Lock_def cancel_all_def)
qed

end
